theory Spec2Isabelle
  imports Complex_Main "HOL-Library.Stream"
begin

section \<open>The random source\<close>

text \<open>
  The engine draws all of its randomness from Python's \<^verbatim>\<open>random\<close> module. The module
  is modelled over an arbitrary stream of raw draws: every call consumes the head of the
  stream and maps it into the range that the call asks for. Every outcome of every call is
  produced by some stream, and the theorems below hold for all streams.
  Python floats are modelled as exact reals, except in the level-up rescaling, where the
  rounding of the quotient decides the integer that results; there the double-precision
  arithmetic of the next section is used.
\<close>

type_synonym rng = "nat stream"

definition randbelow :: "nat \<Rightarrow> rng \<Rightarrow> nat \<times> rng" where
  "randbelow n g = (shd g mod n, stl g)"

definition randint :: "int \<Rightarrow> int \<Rightarrow> rng \<Rightarrow> int \<times> rng" where
  "randint a b g = (case randbelow (nat (b - a + 1)) g of (r, g') \<Rightarrow> (a + int r, g'))"

definition random_random :: "rng \<Rightarrow> real \<times> rng" where
  "random_random g = (real (shd g mod 2 ^ 53) / 2 ^ 53, stl g)"

definition uniform :: "real \<Rightarrow> real \<Rightarrow> rng \<Rightarrow> real \<times> rng" where
  "uniform a b g = (case random_random g of (u, g') \<Rightarrow> (a + (b - a) * u, g'))"

text \<open>\<^verbatim>\<open>int(x)\<close> on a float truncates toward zero.\<close>

definition py_int :: "real \<Rightarrow> int" where
  "py_int x = (if x < 0 then \<lceil>x\<rceil> else \<lfloor>x\<rfloor>)"


section \<open>Double-precision arithmetic\<close>

text \<open>
  A Python float is an IEEE 754 double. A double is modelled by a pair (m, e) that stands for
  m * 2 ^ e, with a mantissa of at most 53 bits. Every operation rounds its exact result to
  53 significant bits, ties to even. The exponent range (overflow and subnormal numbers) is
  not modelled.
\<close>

type_synonym double = "int \<times> int"

function bit_length :: "int \<Rightarrow> nat" where
  "bit_length n = (if n \<le> 0 then 0 else Suc (bit_length (n div 2)))"
  by pat_completeness auto
termination
  by (relation "measure nat") auto

declare bit_length.simps [simp del]

text \<open>The quotient n / d of two positive integers, rounded to the nearest integer, ties to even.\<close>

definition round_half_even :: "int \<Rightarrow> int \<Rightarrow> int" where
  "round_half_even n d =
     (let q = n div d; r = n mod d
      in if 2 * r < d then q else if d < 2 * r then q + 1 else if even q then q else q + 1)"

text \<open>
  The double nearest to the rational n / d (d not 0): the exponent e is chosen so that
  |n / d| / 2 ^ e lies in [2 ^ 52, 2 ^ 53), and the mantissa is that number rounded.
\<close>

definition double_of_ratio :: "int \<Rightarrow> int \<Rightarrow> double" where
  "double_of_ratio n d =
     (if n = 0 then (0, 0)
      else (let a = \<bar>n\<bar>; b = \<bar>d\<bar>;
                e0 = int (bit_length a) - int (bit_length b) - 53;
                e = (if 2 ^ 53 * (b * 2 ^ nat e0) \<le> a * 2 ^ nat (- e0) then e0 + 1 else e0);
                m = round_half_even (a * 2 ^ nat (- e)) (b * 2 ^ nat e)
            in (sgn n * sgn d * m, e)))"

definition real_of_double :: "double \<Rightarrow> real" where
  "real_of_double x =
     (case x of (m, e) \<Rightarrow>
        if 0 \<le> e then real_of_int m * 2 ^ nat e else real_of_int m / 2 ^ nat (- e))"

text \<open>\<^verbatim>\<open>float(k)\<close> of an integer, and the conversion of an integer operand.\<close>

definition float_of_int :: "int \<Rightarrow> double" where
  "float_of_int k = double_of_ratio k 1"

text \<open>\<^verbatim>\<open>a / b\<close> on two integers (b not 0) is the correctly rounded quotient.\<close>

definition float_truediv :: "int \<Rightarrow> int \<Rightarrow> double" where
  "float_truediv a b = double_of_ratio a b"

text \<open>\<^verbatim>\<open>x * y\<close> on two floats: the exact product, rounded.\<close>

definition float_mul :: "double \<Rightarrow> double \<Rightarrow> double" where
  "float_mul x y =
     (case x of (m1, e1) \<Rightarrow> case y of (m2, e2) \<Rightarrow>
        case double_of_ratio (m1 * m2) 1 of (m, e) \<Rightarrow> (m, e + e1 + e2))"

text \<open>\<^verbatim>\<open>int(x)\<close> on a double truncates toward zero.\<close>

definition int_of_double :: "double \<Rightarrow> int" where
  "int_of_double x =
     (case x of (m, e) \<Rightarrow>
        if 0 \<le> e then m * 2 ^ nat e else sgn m * (\<bar>m\<bar> div 2 ^ nat (- e)))"


section \<open>Items, tiers and the catalog\<close>

text \<open>An item record as \<^verbatim>\<open>Database.get_item\<close> builds it (database.py).\<close>

record item =
  item_name :: string
  item_type :: string
  base_damage_min :: real
  base_damage_max :: real
  item_base_defense :: real
  price_copper :: int
  item_tier :: int
  durability :: int
  effect :: string

text \<open>A row of the player tier table as \<^verbatim>\<open>Database.get_tier_data\<close> builds it.\<close>

record tier_data =
  td_tier :: int
  td_title :: string
  td_attack :: int
  td_defense :: int
  td_health :: int
  td_min_xp :: int
  td_weapon :: "string option"
  td_armor :: "string option"
  td_special_ability :: string

text \<open>A row of the enemy table as \<^verbatim>\<open>Database.get_enemy\<close> builds it.\<close>

record enemy_data =
  ed_name :: string
  ed_tier :: int
  ed_attack :: int
  ed_defense :: int
  ed_health :: int
  ed_xp_value :: int
  ed_min_copper :: int
  ed_max_copper :: int
  ed_common_drops :: "string list"
  ed_rare_drops :: "string list"
  ed_spawn_chance :: real

text \<open>
  The tables behind the \<^verbatim>\<open>Database\<close> singleton are data files that are not part of the
  sources; the lookups are taken as a parameter.
\<close>

record database =
  get_item :: "string \<Rightarrow> item option"
  get_enemy :: "string \<Rightarrow> enemy_data option"
  get_tier_data :: "int \<Rightarrow> tier_data option"
  get_all_items_by_tier :: "int \<Rightarrow> item list"
  get_all_enemies_by_tier :: "int \<Rightarrow> enemy_data list"

datatype error = ValueError | IndexError | ZeroDivisionError | RecursionError


section \<open>Character (models/character.py)\<close>

record character =
  name :: string
  age :: int
  tier :: int
  xp :: int
  current_health :: int
  inventory :: "item list"
  equipped_weapon :: "item option"
  equipped_armor :: "item option"
  equipped_shield :: "item option"
  money :: int
  is_player :: bool
  title :: string
  base_attack :: int
  base_defense :: int
  max_health :: int
  special_ability :: string

text \<open>\<^verbatim>\<open>_load_stats\<close>: raises before any field is assigned when the tier is unknown.\<close>

definition load_stats :: "database \<Rightarrow> character \<Rightarrow> error + character" where
  "load_stats db c =
     (case get_tier_data db (tier c) of
        None \<Rightarrow> Inl ValueError
      | Some td \<Rightarrow> Inr (c\<lparr>title := td_title td,
                          base_attack := td_attack td,
                          base_defense := td_defense td,
                          max_health := td_health td,
                          special_ability := td_special_ability td\<rparr>))"

text \<open>
  \<^verbatim>\<open>_level_up\<close> mutates the character step by step and re-raises; the pair holds the
  exception (if any) and the character as the call leaves it. The health fraction
  \<^verbatim>\<open>current_health / old_health\<close> is a float, and so is its product with the new maximum,
  which \<^verbatim>\<open>int\<close> then truncates.
\<close>

definition level_up :: "database \<Rightarrow> character \<Rightarrow> error option \<times> character" where
  "level_up db c =
     (let old_health = max_health c;
          c1 = c\<lparr>tier := tier c + 1\<rparr>
      in case load_stats db c1 of
           Inl e \<Rightarrow> (Some e, c1)
         | Inr c2 \<Rightarrow>
             if old_health = 0 then (Some ZeroDivisionError, c2)
             else (let health_percent = float_truediv (current_health c2) old_health
                   in (None, c2\<lparr>current_health :=
                         int_of_double (float_mul (float_of_int (max_health c2)) health_percent)\<rparr>)))"

text \<open>\<^verbatim>\<open>_check_level_up\<close> logs and swallows whatever \<^verbatim>\<open>_level_up\<close> raises.\<close>

definition check_level_up :: "database \<Rightarrow> character \<Rightarrow> character" where
  "check_level_up db c =
     (case get_tier_data db (tier c + 1) of
        None \<Rightarrow> c
      | Some next_tier_data \<Rightarrow>
          if xp c \<ge> td_min_xp next_tier_data then snd (level_up db c) else c)"

definition add_xp :: "database \<Rightarrow> character \<Rightarrow> int \<Rightarrow> character" where
  "add_xp db c xp_amount =
     (if xp_amount < 0 then c
      else check_level_up db (c\<lparr>xp := xp c + xp_amount\<rparr>))"



definition add_item :: "character \<Rightarrow> item \<Rightarrow> character" where
  "add_item c it = c\<lparr>inventory := inventory c @ [it]\<rparr>"

text \<open>\<^verbatim>\<open>remove_item\<close> deletes the first inventory entry that carries the item's name.\<close>

fun remove_named :: "string \<Rightarrow> item list \<Rightarrow> item list option" where
  "remove_named n [] = None"
| "remove_named n (inv_item # rest) =
     (if item_name inv_item = n then Some rest
      else map_option (\<lambda>r. inv_item # r) (remove_named n rest))"

definition remove_item :: "character \<Rightarrow> item \<Rightarrow> bool \<times> character" where
  "remove_item c it =
     (case remove_named (item_name it) (inventory c) of
        None \<Rightarrow> (False, c)
      | Some stock' \<Rightarrow> (True, c\<lparr>inventory := stock'\<rparr>))"

definition can_afford :: "character \<Rightarrow> int \<Rightarrow> bool" where
  "can_afford c price = (if price < 0 then False else money c \<ge> price)"

definition calculate_total_attack :: "character \<Rightarrow> int" where
  "calculate_total_attack c =
     (let total = (case equipped_weapon c of
                     None \<Rightarrow> real_of_int (base_attack c)
                   | Some w \<Rightarrow> real_of_int (base_attack c)
                                + (base_damage_min w + base_damage_max w) / 2)
      in max 0 (py_int total))"

definition calculate_total_defense :: "character \<Rightarrow> int" where
  "calculate_total_defense c =
     (let total = real_of_int (base_defense c);
          total = (case equipped_armor c of None \<Rightarrow> total
                   | Some a \<Rightarrow> total + item_base_defense a);
          total = (case equipped_shield c of None \<Rightarrow> total
                   | Some s \<Rightarrow> total + item_base_defense s)
      in max 0 (py_int total))"


section \<open>Enemy (models/enemy.py)\<close>

record enemy =
  enemy_name :: string
  enemy_tier :: int
  enemy_current_health :: int
  attack :: int
  defense :: int
  health :: int
  xp_value :: int
  min_copper :: int
  max_copper :: int
  common_drops :: "string list"
  rare_drops :: "string list"
  spawn_chance :: real
  enemy_is_player :: bool

definition enemy_calculate_total_attack :: "enemy \<Rightarrow> int" where
  "enemy_calculate_total_attack e = max 0 (attack e)"

definition enemy_calculate_total_defense :: "enemy \<Rightarrow> int" where
  "enemy_calculate_total_defense e = max 0 (defense e)"


section \<open>The d20 combat resolver (models/combat.py)\<close>

text \<open>
  The resolver takes any object with the combatant methods; the two classes that have
  them are the two constructors. Only a character has an \<^verbatim>\<open>equipped_weapon\<close> attribute.
\<close>

datatype combatant = Player character | Foe enemy

fun total_attack :: "combatant \<Rightarrow> int" where
  "total_attack (Player c) = calculate_total_attack c"
| "total_attack (Foe e) = enemy_calculate_total_attack e"

fun total_defense :: "combatant \<Rightarrow> int" where
  "total_defense (Player c) = calculate_total_defense c"
| "total_defense (Foe e) = enemy_calculate_total_defense e"

fun combatant_is_player :: "combatant \<Rightarrow> bool" where
  "combatant_is_player (Player c) = is_player c"
| "combatant_is_player (Foe e) = enemy_is_player e"



definition roll_d20 :: "rng \<Rightarrow> int \<times> rng" where
  "roll_d20 g = randint 1 20 g"

text \<open>\<^verbatim>\<open>calculate_hit\<close> returns (hit successful, roll value, critical hit).\<close>

definition calculate_hit :: "combatant \<Rightarrow> combatant \<Rightarrow> rng \<Rightarrow> (bool \<times> int \<times> bool) \<times> rng" where
  "calculate_hit attacker defender g =
     (case roll_d20 g of (roll, g') \<Rightarrow>
        (if roll = 20 then (True, roll, True)
         else if roll = 1 then (False, roll, False)
         else (let attack_bonus = total_attack attacker;
                   defense_class = 10 + total_defense defender;
                   attack_bonus = (if combatant_is_player attacker
                                   then attack_bonus + 2 else attack_bonus)
               in (roll + attack_bonus \<ge> defense_class, roll, False)),
         g'))"



text \<open>
  The level-up rescaling in the words of the specification: the previous health fraction
  of the new maximum, rounded down.
\<close>

definition spec_rescale :: "int \<Rightarrow> int \<Rightarrow> int \<Rightarrow> int" where
  "spec_rescale new_max cur old_max = \<lfloor>real_of_int new_max * (real_of_int cur / real_of_int old_max)\<rfloor>"







section \<open>Character construction and snapshots (models/character.py)\<close>

definition initialize_starting_equipment :: "database \<Rightarrow> character \<Rightarrow> character" where
  "initialize_starting_equipment db c =
     (let c1 = (case get_item db ''Lesser Health Potion'' of
                  None \<Rightarrow> c
                | Some health_potion \<Rightarrow> c\<lparr>inventory := inventory c @ replicate 5 health_potion\<rparr>);
          c2 = c1\<lparr>money := 100\<rparr>
      in case get_tier_data db (tier c2) of
           None \<Rightarrow> c2
         | Some tier_data \<Rightarrow>
             (let c3 = (case td_weapon tier_data of
                          None \<Rightarrow> c2
                        | Some weapon_name \<Rightarrow>
                            if weapon_name = [] then c2
                            else (case get_item db weapon_name of
                                    None \<Rightarrow> c2
                                  | Some weapon \<Rightarrow> c2\<lparr>equipped_weapon := Some weapon\<rparr>));
                  c4 = (case td_armor tier_data of
                          None \<Rightarrow> c3
                        | Some armor_name \<Rightarrow>
                            if armor_name = [] then c3
                            else (case get_item db armor_name of
                                    None \<Rightarrow> c3
                                  | Some armor \<Rightarrow> c3\<lparr>equipped_armor := Some armor\<rparr>))
              in c4))"

text \<open>
  The dataclass constructor followed by \<^verbatim>\<open>__post_init__\<close>. The stat fields do not exist
  before \<^verbatim>\<open>_load_stats\<close> assigns them; they start from placeholders here.
\<close>

definition Character_init ::
  "database \<Rightarrow> string \<Rightarrow> int \<Rightarrow> int \<Rightarrow> int \<Rightarrow> int option \<Rightarrow> item list \<Rightarrow> item option
     \<Rightarrow> item option \<Rightarrow> item option \<Rightarrow> int \<Rightarrow> bool \<Rightarrow> error + character" where
  "Character_init db nm ag tr x hp stock weapon armor shield mon player =
     (let c0 = \<lparr>name = nm, age = ag, tier = tr, xp = x, current_health = 0, inventory = stock,
                equipped_weapon = weapon, equipped_armor = armor, equipped_shield = shield,
                money = mon, is_player = player, title = [], base_attack = 0,
                base_defense = 0, max_health = 0, special_ability = []\<rparr>
      in case load_stats db c0 of
           Inl e \<Rightarrow> Inl e
         | Inr c1 \<Rightarrow>
             (let c2 = c1\<lparr>current_health :=
                            (case hp of None \<Rightarrow> max_health c1 | Some h \<Rightarrow> h)\<rparr>
              in if inventory c2 = [] \<and> equipped_weapon c2 = None
                 then Inr (initialize_starting_equipment db c2)
                 else Inr c2))"

record character_snapshot =
  snap_name :: string
  snap_age :: int
  snap_tier :: int
  snap_xp :: int
  snap_current_health :: int
  snap_inventory :: "item list"
  snap_equipped_weapon :: "item option"
  snap_equipped_armor :: "item option"
  snap_equipped_shield :: "item option"
  snap_money :: int

definition to_dict :: "character \<Rightarrow> character_snapshot" where
  "to_dict c = \<lparr>snap_name = name c, snap_age = age c, snap_tier = tier c, snap_xp = xp c,
     snap_current_health = current_health c, snap_inventory = inventory c,
     snap_equipped_weapon = equipped_weapon c, snap_equipped_armor = equipped_armor c,
     snap_equipped_shield = equipped_shield c, snap_money = money c\<rparr>"

text \<open>Loading a save: \<^verbatim>\<open>Character(**save_data['player'])\<close> (game_app.py).\<close>

definition Character_from_dict :: "database \<Rightarrow> character_snapshot \<Rightarrow> error + character" where
  "Character_from_dict db s =
     Character_init db (snap_name s) (snap_age s) (snap_tier s) (snap_xp s)
       (Some (snap_current_health s)) (snap_inventory s) (snap_equipped_weapon s)
       (snap_equipped_armor s) (snap_equipped_shield s) (snap_money s) True"


section \<open>Merchant (models/merchant.py)\<close>

record merchant =
  merchant_inventory :: "item list"

definition price_variation :: real where
  "price_variation = 2 / 10"

definition sell_price_ratio :: real where
  "sell_price_ratio = 5 / 10"

definition restock_counts :: "(string \<times> nat) list" where
  "restock_counts = [(''weapon'', 3), (''armor'', 3), (''shield'', 2), (''consumable'', 5),
     (''tool'', 3)]"

definition apply_price_variation :: "item \<Rightarrow> rng \<Rightarrow> item \<times> rng" where
  "apply_price_variation it g =
     (let base_price = price_copper it
      in case uniform (1 - price_variation) (1 + price_variation) g of
           (variation, g') \<Rightarrow>
             (it\<lparr>price_copper := max 1 (py_int (real_of_int base_price * variation))\<rparr>, g'))"

fun apply_price_variations :: "item list \<Rightarrow> rng \<Rightarrow> item list \<times> rng" where
  "apply_price_variations [] g = ([], g)"
| "apply_price_variations (it # its) g =
     (case apply_price_variation it g of
        (it', g1) \<Rightarrow> (case apply_price_variations its g1 of
                        (its', g2) \<Rightarrow> (it' # its', g2)))"

text \<open>
  \<^verbatim>\<open>DataFrame.sample\<close> belongs to pandas; the sampler is a parameter. It gets the number of
  rows asked for, the rows, and the random source.
\<close>

type_synonym sampler = "nat \<Rightarrow> item list \<Rightarrow> rng \<Rightarrow> item list \<times> rng"

fun restock_by_type ::
  "sampler \<Rightarrow> item list \<Rightarrow> (string \<times> nat) list \<Rightarrow> item list \<Rightarrow> rng \<Rightarrow> item list \<times> rng" where
  "restock_by_type smp all_items [] stock g = (stock, g)"
| "restock_by_type smp all_items ((ty, count) # rest) stock g =
     (let type_items = filter (\<lambda>i. item_type i = ty) all_items
      in if type_items = [] then restock_by_type smp all_items rest stock g
         else (case smp (min count (length type_items)) type_items g of
                 (selected, g1) \<Rightarrow>
                   (case apply_price_variations selected g1 of
                      (its, g2) \<Rightarrow> restock_by_type smp all_items rest (stock @ its) g2)))"

text \<open>
  The extra items, one tier after the other. An exception anywhere in
  \<^verbatim>\<open>_generate_inventory\<close> makes it return the empty list: \<open>None\<close> here.
\<close>

fun restock_extras ::
  "sampler \<Rightarrow> item list \<Rightarrow> int list \<Rightarrow> item list \<Rightarrow> rng \<Rightarrow> item list option \<times> rng" where
  "restock_extras smp all_items [] stock g = (Some stock, g)"
| "restock_extras smp all_items (t # ts) stock g =
     (case random_random g of
        (r, g1) \<Rightarrow>
          if r < 2 / 10 then
            (let tier_items = filter (\<lambda>i. item_tier i = t) all_items
             in if tier_items = [] then restock_extras smp all_items ts stock g1
                else (case smp 1 tier_items g1 of
                        ([], g2) \<Rightarrow> (None, g2)
                      | (it # _, g2) \<Rightarrow>
                          (case apply_price_variation it g2 of
                             (it', g3) \<Rightarrow> restock_extras smp all_items ts (stock @ [it']) g3)))
          else restock_extras smp all_items ts stock g1)"

definition generate_inventory :: "database \<Rightarrow> sampler \<Rightarrow> rng \<Rightarrow> item list \<times> rng" where
  "generate_inventory db smp g =
     (let all_items = get_all_items_by_tier db 6
      in if all_items = [] then ([], g)
         else (case restock_by_type smp all_items restock_counts [] g of
                 (stock, g1) \<Rightarrow>
                   (case restock_extras smp all_items [1, 2, 3, 4, 5, 6] stock g1 of
                      (None, g2) \<Rightarrow> ([], g2)
                    | (Some stock', g2) \<Rightarrow> (stock', g2))))"

definition Merchant_init :: "database \<Rightarrow> sampler \<Rightarrow> rng \<Rightarrow> merchant \<times> rng" where
  "Merchant_init db smp g =
     (case generate_inventory db smp g of (stock, g') \<Rightarrow> (\<lparr>merchant_inventory = stock\<rparr>, g'))"

definition refresh_inventory :: "database \<Rightarrow> sampler \<Rightarrow> merchant \<Rightarrow> rng \<Rightarrow> merchant \<times> rng" where
  "refresh_inventory db smp m g =
     (case generate_inventory db smp g of (stock, g') \<Rightarrow> (m\<lparr>merchant_inventory := stock\<rparr>, g'))"

definition buy_item :: "merchant \<Rightarrow> character \<Rightarrow> string \<Rightarrow> bool \<times> merchant \<times> character" where
  "buy_item m player nm =
     (case find (\<lambda>i. item_name i = nm) (merchant_inventory m) of
        None \<Rightarrow> (False, m, player)
      | Some it \<Rightarrow>
          if \<not> can_afford player (price_copper it) then (False, m, player)
          else (let player1 = player\<lparr>money := money player - price_copper it\<rparr>;
                    player2 = add_item player1 it;
                    m' = m\<lparr>merchant_inventory := remove1 it (merchant_inventory m)\<rparr>
                in (True, m', player2)))"

definition get_item_value :: "item \<Rightarrow> int" where
  "get_item_value it = max 1 (py_int (real_of_int (price_copper it) * sell_price_ratio))"

definition sell_item :: "merchant \<Rightarrow> character \<Rightarrow> item \<Rightarrow> bool \<times> merchant \<times> character" where
  "sell_item m player it =
     (if it \<notin> set (inventory player) then (False, m, player)
      else (let sell_price = get_item_value it;
                player1 = player\<lparr>money := money player + sell_price\<rparr>;
                player2 = snd (remove_item player1 it)
            in (True, m, player2)))"

text \<open>
  The merchants that a game can hold: a fresh one, one whose stock was refreshed, and one
  that a player bought from.
\<close>

inductive merchant_state :: "database \<Rightarrow> sampler \<Rightarrow> merchant \<Rightarrow> bool"
  for db :: database and smp :: sampler where
  fresh: "merchant_state db smp (fst (Merchant_init db smp g))"
| refreshed: "merchant_state db smp m \<Longrightarrow> merchant_state db smp (fst (refresh_inventory db smp m g))"
| bought: "merchant_state db smp m \<Longrightarrow> merchant_state db smp (fst (snd (buy_item m player nm)))"


section \<open>Rooms and the dungeon (models/dungeon.py)\<close>

record room =
  enemies :: "enemy list"
  items :: "item list"
  is_cleared :: bool
  is_visible :: bool
  has_merchant :: bool
  merchant_visited :: bool
  has_treasure :: bool
  treasure_looted :: bool
  is_end_room :: bool
  doors :: "string \<rightharpoonup> bool"

text \<open>\<^verbatim>\<open>Room()\<close>: the defaults of the dataclass, with all four doors closed.\<close>

definition Room :: room where
  "Room = \<lparr>enemies = [], items = [], is_cleared = False, is_visible = False,
     has_merchant = False, merchant_visited = False, has_treasure = False,
     treasure_looted = False, is_end_room = False,
     doors = [''north'' \<mapsto> False, ''south'' \<mapsto> False, ''east'' \<mapsto> False, ''west'' \<mapsto> False]\<rparr>"

record dungeon =
  d_tier :: int
  d_size :: int
  player_pos :: "int \<times> int"
  rooms :: "room list list"

text \<open>
  Python list indexing: a negative index counts from the end, an index out of range raises
  \<^verbatim>\<open>IndexError\<close> (\<open>None\<close>).
\<close>

definition py_index :: "'a list \<Rightarrow> int \<Rightarrow> nat option" where
  "py_index xs i =
     (let n = int (length xs); j = (if i < 0 then i + n else i)
      in if 0 \<le> j \<and> j < n then Some (nat j) else None)"

text \<open>\<^verbatim>\<open>self._rooms[y][x]\<close>, read and mutated in place.\<close>

definition room_at :: "room list list \<Rightarrow> int \<Rightarrow> int \<Rightarrow> room option" where
  "room_at rs x y =
     (case py_index rs y of
        None \<Rightarrow> None
      | Some j \<Rightarrow> (case py_index (rs ! j) x of
                    None \<Rightarrow> None
                  | Some i \<Rightarrow> Some (rs ! j ! i)))"

definition update_room ::
  "(room \<Rightarrow> room) \<Rightarrow> int \<Rightarrow> int \<Rightarrow> room list list \<Rightarrow> room list list option" where
  "update_room f x y rs =
     (case py_index rs y of
        None \<Rightarrow> None
      | Some j \<Rightarrow> (case py_index (rs ! j) x of
                    None \<Rightarrow> None
                  | Some i \<Rightarrow> Some (rs[j := (rs ! j)[i := f (rs ! j ! i)]])))"

text \<open>A loop whose body may raise: the exception ends the loop and propagates.\<close>

fun for_each :: "'a list \<Rightarrow> ('a \<Rightarrow> 's \<Rightarrow> error + 's) \<Rightarrow> 's \<Rightarrow> error + 's" where
  "for_each [] body s = Inr s"
| "for_each (x # xs) body s =
     (case body x s of Inl e \<Rightarrow> Inl e | Inr s' \<Rightarrow> for_each xs body s')"

text \<open>
  A loop inside \<^verbatim>\<open>try: ... except Exception: log\<close>: the body returns whether it finished
  without raising; a raise ends the loop and keeps what was done so far.
\<close>

fun for_each_try :: "'a list \<Rightarrow> ('a \<Rightarrow> 's \<Rightarrow> bool \<times> 's) \<Rightarrow> 's \<Rightarrow> 's" where
  "for_each_try [] body s = s"
| "for_each_try (x # xs) body s =
     (case body x s of (ok, s') \<Rightarrow> if ok then for_each_try xs body s' else s')"


subsection \<open>Maze carving\<close>

text \<open>
  \<^verbatim>\<open>random.shuffle\<close>: for i from the last index down to 1, swap the entries at i and at a
  random index j \<le> i.
\<close>

fun shuffle_from :: "nat \<Rightarrow> 'a list \<Rightarrow> rng \<Rightarrow> 'a list \<times> rng" where
  "shuffle_from 0 xs g = (xs, g)"
| "shuffle_from (Suc i) xs g =
     (case randbelow (Suc (Suc i)) g of
        (j, g') \<Rightarrow> shuffle_from i (xs[Suc i := xs ! j, j := xs ! Suc i]) g')"

definition shuffle :: "'a list \<Rightarrow> rng \<Rightarrow> 'a list \<times> rng" where
  "shuffle xs g = shuffle_from (length xs - 1) xs g"

definition directions :: "(int \<times> int \<times> string \<times> string) list" where
  "directions = [(0, 1, ''south'', ''north''), (0, - 1, ''north'', ''south''),
                 (1, 0, ''east'', ''west''), (- 1, 0, ''west'', ''east'')]"

definition open_door :: "int \<Rightarrow> int \<Rightarrow> string \<Rightarrow> room list list \<Rightarrow> error + room list list" where
  "open_door x y dir rs =
     (case update_room (\<lambda>r. r\<lparr>doors := (doors r)(dir \<mapsto> True)\<rparr>) x y rs of
        None \<Rightarrow> Inl IndexError
      | Some rs' \<Rightarrow> Inr rs')"

text \<open>
  \<^verbatim>\<open>carve_path\<close> recurses once per room it enters. The first argument is the number of
  nested calls that the interpreter still allows; when none is left the call raises
  \<^verbatim>\<open>RecursionError\<close>. The state is the grid, the set of visited cells and the random source.
\<close>

type_synonym maze_state = "room list list \<times> (int \<times> int) set \<times> rng"

text \<open>One iteration of the loop over the shuffled directions; \<open>recur\<close> is the nested call.\<close>

definition carve_step ::
  "(int \<Rightarrow> int \<Rightarrow> maze_state \<Rightarrow> error + maze_state) \<Rightarrow> int \<Rightarrow> int \<Rightarrow> int
     \<Rightarrow> int \<times> int \<times> string \<times> string \<Rightarrow> maze_state \<Rightarrow> error + maze_state" where
  "carve_step recur sz x y =
     (\<lambda>(dx, dy, dir1, dir2) (rs, visited, g).
        let new_x = x + dx; new_y = y + dy
        in if 0 \<le> new_x \<and> new_x < sz \<and> 0 \<le> new_y \<and> new_y < sz
              \<and> (new_x, new_y) \<notin> visited
           then (case open_door x y dir1 rs of
                   Inl e \<Rightarrow> Inl e
                 | Inr rs1 \<Rightarrow>
                     (case open_door new_x new_y dir2 rs1 of
                        Inl e \<Rightarrow> Inl e
                      | Inr rs2 \<Rightarrow> recur new_x new_y (rs2, visited, g)))
           else Inr (rs, visited, g))"

primrec carve_path :: "nat \<Rightarrow> int \<Rightarrow> int \<Rightarrow> int \<Rightarrow> maze_state \<Rightarrow> error + maze_state" where
  "carve_path 0 sz x y st = Inl RecursionError"
| "carve_path (Suc depth) sz x y st =
     (case st of (rs, visited, g) \<Rightarrow>
        (case shuffle directions g of (dirs, g') \<Rightarrow>
           for_each dirs (carve_step (carve_path depth sz) sz x y)
             (rs, insert (x, y) visited, g')))"

definition generate_maze ::
  "nat \<Rightarrow> int \<Rightarrow> room list list \<Rightarrow> rng \<Rightarrow> error + room list list \<times> rng" where
  "generate_maze limit sz rs g =
     (case carve_path limit sz 0 0 (rs, {}, g) of
        Inl e \<Rightarrow> Inl e
      | Inr (rs', visited, g') \<Rightarrow> Inr (rs', g'))"


subsection \<open>Populating the rooms\<close>

text \<open>
  \<^verbatim>\<open>Enemy.get_random_enemy\<close> (models/enemy.py) picks and builds the enemy of a room; the
  dungeon only appends what it returns, and it is taken as a parameter here.
\<close>

type_synonym spawner = "int \<Rightarrow> rng \<Rightarrow> enemy option \<times> rng"

definition ENEMY_SPAWN_CHANCE :: real where
  "ENEMY_SPAWN_CHANCE = 4 / 10"

definition populate_rooms ::
  "database \<Rightarrow> spawner \<Rightarrow> int \<Rightarrow> int \<Rightarrow> room list list \<Rightarrow> rng \<Rightarrow> room list list \<times> rng" where
  "populate_rooms db spawn lvl sz rs g =
     (if get_all_enemies_by_tier db lvl = [] then (rs, g)
      else for_each_try [(x, y). y \<leftarrow> [0..sz - 1], x \<leftarrow> [0..sz - 1]]
             (\<lambda>(x, y) (rs, g).
                if (x, y) \<noteq> (0, 0) then
                  (case random_random g of
                     (r, g1) \<Rightarrow>
                       if r < ENEMY_SPAWN_CHANCE then
                         (case spawn lvl g1 of
                            (None, g2) \<Rightarrow> (True, rs, g2)
                          | (Some enemy, g2) \<Rightarrow>
                              (case update_room (\<lambda>r. r\<lparr>enemies := enemies r @ [enemy]\<rparr>) x y rs of
                                 None \<Rightarrow> (False, rs, g2)
                               | Some rs' \<Rightarrow> (True, rs', g2)))
                       else (True, rs, g1))
                else (True, rs, g))
             (rs, g))"

text \<open>
  The list comprehensions that collect the candidate rooms; reading a room that does not
  exist raises.
\<close>

fun select_cells ::
  "(room \<Rightarrow> bool) \<Rightarrow> room list list \<Rightarrow> (int \<times> int) list \<Rightarrow> (int \<times> int) list option" where
  "select_cells free rs [] = Some []"
| "select_cells free rs ((x, y) # cs) =
     (if (x, y) = (0, 0) then select_cells free rs cs
      else (case room_at rs x y of
              None \<Rightarrow> None
            | Some r \<Rightarrow>
                map_option (\<lambda>rest. if free r then (x, y) # rest else rest)
                  (select_cells free rs cs)))"

fun place_treasures ::
  "nat \<Rightarrow> (int \<times> int) list \<Rightarrow> room list list \<Rightarrow> rng \<Rightarrow> room list list \<times> rng" where
  "place_treasures 0 empty_rooms rs g = (rs, g)"
| "place_treasures (Suc k) empty_rooms rs g =
     (if empty_rooms = [] then (rs, g)
      else (case randbelow (length empty_rooms) g of
              (i, g1) \<Rightarrow>
                (case empty_rooms ! i of
                   (x, y) \<Rightarrow>
                     (case update_room (\<lambda>r. r\<lparr>has_treasure := True\<rparr>) x y rs of
                        None \<Rightarrow> (rs, g1)
                      | Some rs' \<Rightarrow>
                          place_treasures k (take i empty_rooms @ drop (Suc i) empty_rooms)
                            rs' g1))))"

definition place_treasure_rooms ::
  "int \<Rightarrow> int \<Rightarrow> room list list \<Rightarrow> rng \<Rightarrow> room list list \<times> rng" where
  "place_treasure_rooms lvl sz rs g =
     (case randint 1 lvl g of
        (num_treasures, g1) \<Rightarrow>
          (case select_cells (\<lambda>r. enemies r = []) rs
                  [(x, y). x \<leftarrow> [0..sz - 1], y \<leftarrow> [0..sz - 1]] of
             None \<Rightarrow> (rs, g1)
           | Some empty_rooms \<Rightarrow>
               if empty_rooms = [] then (rs, g1)
               else place_treasures (nat num_treasures) empty_rooms rs g1))"

definition place_merchant :: "int \<Rightarrow> room list list \<Rightarrow> rng \<Rightarrow> room list list \<times> rng" where
  "place_merchant sz rs g =
     (case select_cells (\<lambda>r. enemies r = [] \<and> \<not> has_treasure r) rs
             [(x, y). x \<leftarrow> [0..sz - 1], y \<leftarrow> [0..sz - 1]] of
        None \<Rightarrow> (rs, g)
      | Some empty_rooms \<Rightarrow>
          if empty_rooms = [] then (rs, g)
          else (case randbelow (length empty_rooms) g of
                  (i, g1) \<Rightarrow>
                    (case empty_rooms ! i of
                       (x, y) \<Rightarrow>
                         (case update_room (\<lambda>r. r\<lparr>has_merchant := True\<rparr>) x y rs of
                            None \<Rightarrow> (rs, g1)
                          | Some rs' \<Rightarrow> (rs', g1)))))"

definition calculate_manhattan_distance :: "int \<times> int \<Rightarrow> int \<times> int \<Rightarrow> int" where
  "calculate_manhattan_distance pos1 pos2 =
     \<bar>fst pos1 - fst pos2\<bar> + \<bar>snd pos1 - snd pos2\<bar>"

definition place_end_room :: "int \<Rightarrow> int \<times> int \<Rightarrow> room list list \<Rightarrow> room list list" where
  "place_end_room sz pos rs =
     (case foldl (\<lambda>(farthest_room, max_distance) c.
                    let distance = calculate_manhattan_distance c pos
                    in if distance > max_distance then (Some c, distance)
                       else (farthest_room, max_distance))
                 (None, 0) [(x, y). y \<leftarrow> [0..sz - 1], x \<leftarrow> [0..sz - 1]] of
        (None, _) \<Rightarrow> rs
      | (Some (x, y), _) \<Rightarrow>
          (case update_room (\<lambda>r. r\<lparr>is_end_room := True\<rparr>) x y rs of
             None \<Rightarrow> rs
           | Some rs' \<Rightarrow> rs'))"


subsection \<open>Visibility and movement\<close>

definition update_visibility :: "dungeon \<Rightarrow> dungeon" where
  "update_visibility d =
     (case player_pos d of
        (x, y) \<Rightarrow>
          d\<lparr>rooms :=
              for_each_try [(dx, dy). dy \<leftarrow> [- 4..4], dx \<leftarrow> [- 4..4]]
                (\<lambda>(dx, dy) rs.
                   if dx * dx + dy * dy \<le> 4 * 4 then
                     (let new_x = x + dx; new_y = y + dy
                      in if 0 \<le> new_x \<and> new_x < d_size d \<and> 0 \<le> new_y \<and> new_y < d_size d
                         then (case update_room (\<lambda>r. r\<lparr>is_visible := True\<rparr>) new_x new_y rs of
                                 None \<Rightarrow> (False, rs)
                               | Some rs' \<Rightarrow> (True, rs'))
                         else (True, rs))
                   else (True, rs))
                (rooms d)\<rparr>)"

definition generate_dungeon ::
  "database \<Rightarrow> spawner \<Rightarrow> nat \<Rightarrow> dungeon \<Rightarrow> rng \<Rightarrow> error + dungeon \<times> rng" where
  "generate_dungeon db spawn limit d g =
     (case generate_maze limit (d_size d) (rooms d) g of
        Inl e \<Rightarrow> Inl e
      | Inr (rs1, g1) \<Rightarrow>
          (case populate_rooms db spawn (d_tier d) (d_size d) rs1 g1 of
             (rs2, g2) \<Rightarrow>
               (case place_treasure_rooms (d_tier d) (d_size d) rs2 g2 of
                  (rs3, g3) \<Rightarrow>
                    (case place_merchant (d_size d) rs3 g3 of
                       (rs4, g4) \<Rightarrow>
                         (let rs5 = place_end_room (d_size d) (player_pos d) rs4
                          in case update_room (\<lambda>r. r\<lparr>is_visible := True\<rparr>) 0 0 rs5 of
                               None \<Rightarrow> Inl IndexError
                             | Some rs6 \<Rightarrow> Inr (update_visibility (d\<lparr>rooms := rs6\<rparr>), g4))))))"

text \<open>
  \<^verbatim>\<open>Dungeon(tier, size)\<close> without a saved position or saved rooms: a fresh grid, then
  \<^verbatim>\<open>_generate_dungeon\<close>. Any exception leaves the constructor.
\<close>

definition Dungeon_init ::
  "database \<Rightarrow> spawner \<Rightarrow> nat \<Rightarrow> int \<Rightarrow> int \<Rightarrow> rng \<Rightarrow> error + dungeon \<times> rng" where
  "Dungeon_init db spawn limit lvl sz g =
     (if lvl < 1 then Inl ValueError
      else if sz < 5 then Inl ValueError
      else generate_dungeon db spawn limit
             \<lparr>d_tier = lvl, d_size = sz, player_pos = (0, 0),
              rooms = replicate (nat sz) (replicate (nat sz) Room)\<rparr> g)"

definition get_current_room :: "dungeon \<Rightarrow> room option" where
  "get_current_room d = room_at (rooms d) (fst (player_pos d)) (snd (player_pos d))"

definition direction_map :: "string \<rightharpoonup> int \<times> int" where
  "direction_map = [''north'' \<mapsto> (0, - 1), ''south'' \<mapsto> (0, 1), ''east'' \<mapsto> (1, 0),
                    ''west'' \<mapsto> (- 1, 0)]"

text \<open>
  \<^verbatim>\<open>move_player\<close> catches every exception and returns \<^verbatim>\<open>False\<close>; the only call that can
  raise is \<^verbatim>\<open>get_current_room\<close>, before anything is changed.
\<close>

definition move_player :: "dungeon \<Rightarrow> string \<Rightarrow> bool \<times> dungeon" where
  "move_player d direction =
     (case get_current_room d of
        None \<Rightarrow> (False, d)
      | Some current_room \<Rightarrow>
          if \<not> (case doors current_room direction of None \<Rightarrow> False | Some b \<Rightarrow> b)
          then (False, d)
          else (case direction_map direction of
                  None \<Rightarrow> (False, d)
                | Some (dx, dy) \<Rightarrow>
                    (let new_x = fst (player_pos d) + dx;
                         new_y = snd (player_pos d) + dy
                     in if 0 \<le> new_x \<and> new_x < d_size d \<and> 0 \<le> new_y \<and> new_y < d_size d
                        then (True, update_visibility (d\<lparr>player_pos := (new_x, new_y)\<rparr>))
                        else (False, d))))"

definition validate_position :: "dungeon \<Rightarrow> int \<Rightarrow> int \<Rightarrow> bool" where
  "validate_position d x y = (0 \<le> x \<and> x < d_size d \<and> 0 \<le> y \<and> y < d_size d)"



subsection \<open>What the game does to the room the player is in (game\_app.py, gui/main\_window.py)\<close>

definition with_current_room :: "(room \<Rightarrow> room) \<Rightarrow> dungeon \<Rightarrow> dungeon" where
  "with_current_room f d =
     (case update_room f (fst (player_pos d)) (snd (player_pos d)) (rooms d) of
        None \<Rightarrow> d
      | Some rs \<Rightarrow> d\<lparr>rooms := rs\<rparr>)"

text \<open>\<^verbatim>\<open>_handle_combat_end('victory')\<close>\<close>

definition combat_victory :: "dungeon \<Rightarrow> dungeon" where
  "combat_victory d = with_current_room (\<lambda>r. r\<lparr>is_cleared := True, enemies := []\<rparr>) d"

text \<open>\<^verbatim>\<open>_handle_treasure\<close>\<close>

definition treasure_taken :: "dungeon \<Rightarrow> dungeon" where
  "treasure_taken d = with_current_room (\<lambda>r. r\<lparr>treasure_looted := True\<rparr>) d"

text \<open>Closing the merchant window.\<close>

definition merchant_left :: "dungeon \<Rightarrow> dungeon" where
  "merchant_left d = with_current_room (\<lambda>r. r\<lparr>merchant_visited := True\<rparr>) d"

text \<open>\<^verbatim>\<open>Enemy.take_damage\<close>, and a combat turn that hits the active enemy of the room.\<close>

definition enemy_take_damage :: "enemy \<Rightarrow> int \<Rightarrow> bool \<times> enemy" where
  "enemy_take_damage e damage =
     (if damage < 0 then (True, e)
      else (let e' = e\<lparr>enemy_current_health := max 0 (enemy_current_health e - damage)\<rparr>
            in (enemy_current_health e' > 0, e')))"

definition enemy_hit :: "int \<Rightarrow> dungeon \<Rightarrow> dungeon" where
  "enemy_hit damage d =
     with_current_room
       (\<lambda>r. case enemies r of
               [] \<Rightarrow> r
             | e # es \<Rightarrow> r\<lparr>enemies := snd (enemy_take_damage e damage) # es\<rparr>) d"

text \<open>
  The dungeon states of a game: a generated dungeon, and what movement (including the
  random move after fleeing, which goes through \<^verbatim>\<open>move_player\<close>), combat and looting make
  of it.
\<close>

inductive dungeon_state :: "database \<Rightarrow> spawner \<Rightarrow> dungeon \<Rightarrow> bool"
  for db :: database and spawn :: spawner where
  generated: "Dungeon_init db spawn limit lvl sz g = Inr (d, g') \<Longrightarrow> dungeon_state db spawn d"
| moved: "dungeon_state db spawn d \<Longrightarrow> dungeon_state db spawn (snd (move_player d direction))"
| fought: "dungeon_state db spawn d \<Longrightarrow> dungeon_state db spawn (enemy_hit damage d)"
| won: "dungeon_state db spawn d \<Longrightarrow> dungeon_state db spawn (combat_victory d)"
| looted: "dungeon_state db spawn d \<Longrightarrow> dungeon_state db spawn (treasure_taken d)"
| traded: "dungeon_state db spawn d \<Longrightarrow> dungeon_state db spawn (merchant_left d)"


subsection \<open>The door graph\<close>

text \<open>A door is open when \<^verbatim>\<open>doors.get(direction, False)\<close> is true.\<close>

definition door_open :: "room list list \<Rightarrow> int \<times> int \<Rightarrow> string \<Rightarrow> bool" where
  "door_open rs c dir =
     (case room_at rs (fst c) (snd c) of
        None \<Rightarrow> False
      | Some r \<Rightarrow> (case doors r dir of None \<Rightarrow> False | Some b \<Rightarrow> b))"

definition in_grid :: "int \<Rightarrow> int \<times> int \<Rightarrow> bool" where
  "in_grid sz c = (0 \<le> fst c \<and> fst c < sz \<and> 0 \<le> snd c \<and> snd c < sz)"

definition opposite :: "string \<Rightarrow> string" where
  "opposite dir = (if dir = ''north'' then ''south'' else if dir = ''south'' then ''north''
                   else if dir = ''east'' then ''west'' else ''east'')"

text \<open>
  Two rooms of the grid are linked when they are adjacent in one of the four directions
  and the door of the first toward the second is open.
\<close>

definition links :: "int \<Rightarrow> room list list \<Rightarrow> ((int \<times> int) \<times> (int \<times> int)) set" where
  "links sz rs =
     {(a, b). \<exists>dir dx dy. direction_map dir = Some (dx, dy) \<and> b = (fst a + dx, snd a + dy)
                \<and> in_grid sz a \<and> in_grid sz b \<and> door_open rs a dir}"

definition door_edges :: "int \<Rightarrow> room list list \<Rightarrow> (int \<times> int) set set" where
  "door_edges sz rs = (\<lambda>(a, b). {a, b}) ` links sz rs"

text \<open>A cycle: at least three distinct rooms, each linked to the next and the last to the first.\<close>

definition is_cycle :: "('a \<times> 'a) set \<Rightarrow> 'a list \<Rightarrow> bool" where
  "is_cycle L cs =
     (3 \<le> length cs \<and> distinct cs
      \<and> (\<forall>i < length cs. (cs ! i, cs ! (Suc i mod length cs)) \<in> L))"

definition door_symmetry :: "int \<Rightarrow> room list list \<Rightarrow> bool" where
  "door_symmetry sz rs =
     (\<forall>a b dir dx dy. direction_map dir = Some (dx, dy) \<and> b = (fst a + dx, snd a + dy)
          \<and> in_grid sz a \<and> in_grid sz b \<longrightarrow>
        (\<exists>ra rb v. room_at rs (fst a) (snd a) = Some ra \<and> room_at rs (fst b) (snd b) = Some rb
           \<and> doors ra dir = Some v \<and> doors rb (opposite dir) = Some v))"

definition door_grid :: "room list list \<Rightarrow> (string \<rightharpoonup> bool) list list" where
  "door_grid rs = map (map doors) rs"

definition neighbours :: "int \<Rightarrow> int \<times> int \<Rightarrow> (int \<times> int) set" where
  "neighbours sz c =
     {b. \<exists>dir dx dy. direction_map dir = Some (dx, dy) \<and> b = (fst c + dx, snd c + dy)
           \<and> in_grid sz b}"

definition grid_ok :: "int \<Rightarrow> room list list \<Rightarrow> bool" where
  "grid_ok sz rs =
     (length rs = nat sz \<and> (\<forall>row \<in> set rs. length row = nat sz
        \<and> (\<forall>r \<in> set row. \<forall>dir \<in> {''north'', ''south'', ''east'', ''west''}. doors r dir \<noteq> None)))"

text \<open>
  The invariant of the carving: the doors link visited rooms only, in both directions; every
  visited room is reached from the start; there is one door-edge less than visited rooms;
  and no cycle.
\<close>

definition tree_on :: "'a \<Rightarrow> ('a \<times> 'a) set \<Rightarrow> 'a set \<Rightarrow> bool" where
  "tree_on start L V =
     (finite V \<and> start \<in> V \<and> L \<subseteq> V \<times> V \<and> sym L
      \<and> (\<forall>c \<in> V. (start, c) \<in> L\<^sup>*)
      \<and> card ((\<lambda>(a, b). {a, b}) ` L) + 1 = card V
      \<and> (\<nexists>cs. is_cycle L cs))"

definition maze_inv :: "int \<Rightarrow> room list list \<Rightarrow> (int \<times> int) set \<Rightarrow> bool" where
  "maze_inv sz rs V =
     (grid_ok sz rs \<and> V \<subseteq> {c. in_grid sz c} \<and> tree_on (0, 0) (links sz rs) V)"

text \<open>
  The property of claim C1 for a grid of side \<open>sz\<close>: every room is reached from (0,0)
  through open doors, there are \<open>sz * sz - 1\<close> door-edges, and no cycle.
\<close>

definition spanning_tree :: "int \<Rightarrow> room list list \<Rightarrow> bool" where
  "spanning_tree sz rs =
     ((\<forall>c. in_grid sz c \<longrightarrow> ((0, 0), c) \<in> (links sz rs)\<^sup>*)
      \<and> int (card (door_edges sz rs)) = sz * sz - 1
      \<and> (\<nexists>cs. is_cycle (links sz rs) cs))"


section \<open>Example data\<close>

text \<open>A small catalog, a player and an enemy on which the theorems are evaluated.\<close>

definition demo_potion :: item where
  "demo_potion = \<lparr>item_name = ''Lesser Health Potion'', item_type = ''consumable'',
     base_damage_min = 0, base_damage_max = 0, item_base_defense = 0, price_copper = 10,
     item_tier = 1, durability = 100, effect = ''heal_20''\<rparr>"

definition demo_sword :: item where
  "demo_sword = \<lparr>item_name = ''Rusty Sword'', item_type = ''weapon'',
     base_damage_min = 1, base_damage_max = 4, item_base_defense = 0, price_copper = 100,
     item_tier = 1, durability = 100, effect = ''none''\<rparr>"

definition demo_tier :: "int \<Rightarrow> tier_data" where
  "demo_tier t = \<lparr>td_tier = t, td_title = ''Adventurer'', td_attack = 5 * t, td_defense = 2 * t,
     td_health = 50 * t, td_min_xp = 100 * (t - 1), td_weapon = None, td_armor = None,
     td_special_ability = ''none''\<rparr>"

definition demo_db :: database where
  "demo_db = \<lparr>get_item = (\<lambda>n. if n = ''Lesser Health Potion'' then Some demo_potion
                             else if n = ''Rusty Sword'' then Some demo_sword else None),
     get_enemy = (\<lambda>n. None),
     get_tier_data = (\<lambda>t. if 1 \<le> t \<and> t \<le> 6 then Some (demo_tier t) else None),
     get_all_items_by_tier = (\<lambda>t. if 1 \<le> t then [demo_potion, demo_sword] else []),
     get_all_enemies_by_tier = (\<lambda>t. [])\<rparr>"

definition demo_sampler :: sampler where
  "demo_sampler n its g = (take n its, g)"

definition demo_enemy :: enemy where
  "demo_enemy = \<lparr>enemy_name = ''Rat'', enemy_tier = 1, enemy_current_health = 8, attack = 2,
     defense = 4, health = 8, xp_value = 5, min_copper = 10, max_copper = 20,
     common_drops = [], rare_drops = [], spawn_chance = 1 / 2, enemy_is_player = False\<rparr>"

definition demo_player :: character where
  "demo_player = \<lparr>name = ''Hero'', age = 25, tier = 1, xp = 0, current_health = 50,
     inventory = [], equipped_weapon = None, equipped_armor = None, equipped_shield = None,
     money = 100, is_player = True, title = ''Novice'', base_attack = 5, base_defense = 2,
     max_health = 50, special_ability = ''none''\<rparr>"


definition demo_merchant :: merchant where
  "demo_merchant = fst (Merchant_init demo_db demo_sampler (sconst 0))"

definition demo_hero :: character where
  "demo_hero = (case Character_init demo_db ''Hero'' 25 1 0 None [] None None None 0 True of
                  Inr c \<Rightarrow> c | Inl e \<Rightarrow> demo_player)"

definition demo_seller :: character where
  "demo_seller = foldl (\<lambda>p it. snd (snd (sell_item demo_merchant p it))) demo_hero
                   (replicate 5 demo_potion)"

definition demo_spawn :: spawner where
  "demo_spawn lvl g = (if even (shd g) then Some demo_enemy else None, stl g)"

definition demo_dungeon :: dungeon where
  "demo_dungeon = \<lparr>d_tier = 1, d_size = 5, player_pos = (0, 0),
     rooms = [[Room\<lparr>doors := (doors Room)(''east'' \<mapsto> True)\<rparr>,
               Room\<lparr>doors := (doors Room)(''west'' \<mapsto> True)\<rparr>, Room, Room, Room],
              replicate 5 Room, replicate 5 Room, replicate 5 Room, replicate 5 Room]\<rparr>"

section \<open>Combat: hit resolution and damage\<close>

lemma roll_d20_range: "1 \<le> fst (roll_d20 g) \<and> fst (roll_d20 g) \<le> 20"
proof -
  have "shd g mod 20 < 20" by simp
  then show ?thesis
    by (simp add: roll_d20_def randint_def randbelow_def)
qed



text \<open>
  Claim C4. For every attacker, every defender and every d20 roll (the roll that the random
  source yields, always between 1 and 20): a roll of 20 hits and is critical; a roll of 1
  misses; any other roll hits exactly when roll + attacker's total attack (+ 2 for a player)
  reaches 10 + defender's total defense, and is not critical.
\<close>

theorem calculate_hit_rule:
  fixes attacker defender :: combatant and g :: rng
  defines "roll \<equiv> fst (roll_d20 g)"
  defines "res \<equiv> fst (calculate_hit attacker defender g)"
  shows "1 \<le> roll \<and> roll \<le> 20
     \<and> fst (snd res) = roll
     \<and> (roll = 20 \<longrightarrow> fst res \<and> snd (snd res))
     \<and> (roll = 1 \<longrightarrow> \<not> fst res)
     \<and> (roll \<noteq> 20 \<and> roll \<noteq> 1 \<longrightarrow>
          (fst res \<longleftrightarrow> roll + total_attack attacker + (if combatant_is_player attacker then 2 else 0)
                            \<ge> 10 + total_defense defender)
          \<and> \<not> snd (snd res))"
  using roll_d20_range [of g]
  by (simp add: roll_def res_def calculate_hit_def Let_def split: prod.splits)

theorem calculate_hit_rule_witness:
  "fst (roll_d20 (sconst 19)) = 20
   \<and> fst (fst (calculate_hit (Player demo_player) (Foe demo_enemy) (sconst 19)))
   \<and> snd (snd (fst (calculate_hit (Player demo_player) (Foe demo_enemy) (sconst 19))))
   \<and> fst (roll_d20 (sconst 0)) = 1
   \<and> \<not> fst (fst (calculate_hit (Player demo_player) (Foe demo_enemy) (sconst 0)))
   \<and> fst (roll_d20 (sconst 9)) = 10
   \<and> fst (fst (calculate_hit (Player demo_player) (Foe demo_enemy) (sconst 9)))
   \<and> \<not> fst (fst (calculate_hit (Foe demo_enemy) (Player demo_player) (sconst 4)))"
  using calculate_hit_rule [of "sconst 19" "Player demo_player" "Foe demo_enemy"]
    calculate_hit_rule [of "sconst 0" "Player demo_player" "Foe demo_enemy"]
    calculate_hit_rule [of "sconst 9" "Player demo_player" "Foe demo_enemy"]
    calculate_hit_rule [of "sconst 4" "Foe demo_enemy" "Player demo_player"]
  by (simp add: roll_d20_def randint_def randbelow_def demo_player_def demo_enemy_def
      calculate_total_attack_def calculate_total_defense_def enemy_calculate_total_attack_def
      enemy_calculate_total_defense_def py_int_def)






section \<open>Character: health and experience\<close>







section \<open>Experience and level-up\<close>

text \<open>
  What one \<^verbatim>\<open>add_xp\<close> call does, apart from the value of the rescaled health: a
  non-negative amount is added exactly; when the new total reaches the minimum of the
  immediate next tier, the tier goes up by exactly one and that tier's base stats are loaded,
  however many thresholds the grant crosses; otherwise only the experience changes. A
  negative amount changes nothing. The new health is the double-precision product of the new
  maximum with the double-precision quotient of the old health and the old maximum,
  truncated.
\<close>

lemma add_xp_effect:
  "(0 \<le> amount \<longrightarrow>
       xp (add_xp db c amount) = xp c + amount
     \<and> (tier (add_xp db c amount) = tier c \<or> tier (add_xp db c amount) = tier c + 1)
     \<and> (\<forall>td. get_tier_data db (tier c + 1) = Some td \<and> td_min_xp td \<le> xp c + amount \<longrightarrow>
            tier (add_xp db c amount) = tier c + 1
          \<and> title (add_xp db c amount) = td_title td
          \<and> base_attack (add_xp db c amount) = td_attack td
          \<and> base_defense (add_xp db c amount) = td_defense td
          \<and> max_health (add_xp db c amount) = td_health td
          \<and> special_ability (add_xp db c amount) = td_special_ability td
          \<and> (max_health c \<noteq> 0 \<longrightarrow>
               current_health (add_xp db c amount)
                 = int_of_double (float_mul (float_of_int (td_health td))
                     (float_truediv (current_health c) (max_health c)))))
     \<and> ((get_tier_data db (tier c + 1) = None
          \<or> (\<exists>td. get_tier_data db (tier c + 1) = Some td \<and> xp c + amount < td_min_xp td)) \<longrightarrow>
            add_xp db c amount = c\<lparr>xp := xp c + amount\<rparr>))
   \<and> (amount < 0 \<longrightarrow> add_xp db c amount = c)"
  by (auto simp: add_xp_def check_level_up_def level_up_def load_stats_def Let_def
      split: option.splits)

lemma add_xp_example:
  "xp (add_xp demo_db demo_player 250) = 250
   \<and> tier (add_xp demo_db demo_player 250) = 2
   \<and> max_health (add_xp demo_db demo_player 250) = 100
   \<and> add_xp demo_db demo_player 30 = demo_player\<lparr>xp := 30\<rparr>
   \<and> add_xp demo_db demo_player (- 5) = demo_player"
  using add_xp_effect [of 250 demo_db demo_player] add_xp_effect [of 30 demo_db demo_player]
    add_xp_effect [of "- 5" demo_db demo_player]
  by (simp add: demo_db_def demo_tier_def demo_player_def)

text \<open>The fraction the specification asks for is the integer quotient.\<close>

lemma spec_rescale_div:
  "spec_rescale new_max cur old_max = (new_max * cur) div old_max"
proof -
  have "real_of_int new_max * (real_of_int cur / real_of_int old_max)
      = real_of_int (new_max * cur) / real_of_int old_max"
    by simp
  then show ?thesis
    unfolding spec_rescale_def by (simp only: floor_divide_of_int_eq)
qed

text \<open>
  In double precision 29 / 50 is rounded to 5224175567749775 / 2 ^ 53, which is below 0.58;
  its product with 100 is rounded to a double below 58, and \<^verbatim>\<open>int\<close> truncates that to 57.
\<close>

lemma float_truediv_29_50:
  "float_truediv 29 50 = (5224175567749775, - 53)"
  by code_simp

lemma rescale_29_50_100:
  "int_of_double (float_mul (float_of_int 100) (float_truediv 29 50)) = 57"
  by code_simp

text \<open>
  Claim C7 says that on a level-up the health is rescaled to the previous fraction of the
  new maximum, rounded down. The code's comment says the same (heal proportionally), but the
  float arithmetic misses it: a character of tier 1 with 29 of 50 health that gains 100
  experience reaches tier 2, whose maximum is 100. The fraction 29 / 50 of 100 is exactly
  58; the code leaves the character with 57.
\<close>

theorem add_xp_rescale_below_fraction:
  "max_health (demo_player\<lparr>current_health := 29\<rparr>) = 50
   \<and> tier (add_xp demo_db (demo_player\<lparr>current_health := 29\<rparr>) 100) = 2
   \<and> max_health (add_xp demo_db (demo_player\<lparr>current_health := 29\<rparr>) 100) = 100
   \<and> current_health (add_xp demo_db (demo_player\<lparr>current_health := 29\<rparr>) 100) = 57
   \<and> spec_rescale 100 29 50 = 58
   \<and> real_of_double (float_truediv 29 50) < 29 / 50"
proof -
  have "real_of_double (float_truediv 29 50) < 29 / 50"
    unfolding float_truediv_29_50 by (simp add: real_of_double_def)
  moreover have "spec_rescale 100 29 50 = 58"
    by (simp add: spec_rescale_div)
  ultimately show ?thesis
    using rescale_29_50_100
    by (simp add: add_xp_def check_level_up_def level_up_def load_stats_def Let_def
        demo_db_def demo_tier_def demo_player_def)
qed
section \<open>Merchant: buying and selling\<close>

lemma apply_price_variation_price: "1 \<le> price_copper (fst (apply_price_variation it g))"
  by (simp add: apply_price_variation_def Let_def split: prod.splits)

lemma apply_price_variations_price:
  "\<forall>it \<in> set (fst (apply_price_variations its g)). 1 \<le> price_copper it"
proof (induction its arbitrary: g)
  case Nil
  then show ?case by simp
next
  case (Cons it its)
  obtain it' g1 where v: "apply_price_variation it g = (it', g1)"
    by (cases "apply_price_variation it g")
  obtain its' g2 where vs: "apply_price_variations its g1 = (its', g2)"
    by (cases "apply_price_variations its g1")
  have "1 \<le> price_copper it'"
    using apply_price_variation_price [of it g] v by simp
  moreover have "\<forall>i \<in> set its'. 1 \<le> price_copper i"
    using Cons.IH [of g1] vs by simp
  ultimately show ?case by (simp add: v vs)
qed

lemma restock_by_type_price:
  "\<forall>it \<in> set stock. 1 \<le> price_copper it \<Longrightarrow>
   \<forall>it \<in> set (fst (restock_by_type smp all_items counts stock g)). 1 \<le> price_copper it"
proof (induction smp all_items counts stock g rule: restock_by_type.induct)
  case (1 smp all_items stock g)
  then show ?case by simp
next
  case (2 smp all_items ty count rest stock g)
  let ?type_items = "filter (\<lambda>i. item_type i = ty) all_items"
  show ?case
  proof (cases "?type_items = []")
    case True
    then show ?thesis using 2 by simp
  next
    case False
    obtain selected g1 where s: "smp (min count (length ?type_items)) ?type_items g = (selected, g1)"
      by (cases "smp (min count (length ?type_items)) ?type_items g")
    obtain its g2 where v: "apply_price_variations selected g1 = (its, g2)"
      by (cases "apply_price_variations selected g1")
    have "\<forall>it \<in> set (stock @ its). 1 \<le> price_copper it"
      using "2.prems" apply_price_variations_price [of selected g1] v by auto
    then have "\<forall>it \<in> set (fst (restock_by_type smp all_items rest (stock @ its) g2)).
        1 \<le> price_copper it"
      using "2.IH"(2) [OF refl False s [symmetric] v [symmetric]] by simp
    then show ?thesis using False s v by (simp add: Let_def)
  qed
qed

lemma restock_extras_price:
  "\<forall>it \<in> set stock. 1 \<le> price_copper it \<Longrightarrow>
   restock_extras smp all_items ts stock g = (Some stock', g') \<Longrightarrow>
   \<forall>it \<in> set stock'. 1 \<le> price_copper it"
proof (induction ts arbitrary: stock g)
  case Nil
  then show ?case by simp
next
  case (Cons t ts)
  obtain r g1 where r: "random_random g = (r, g1)"
    by (cases "random_random g")
  let ?tier_items = "filter (\<lambda>i. item_tier i = t) all_items"
  show ?case
  proof (cases "r < 2 / 10 \<and> ?tier_items \<noteq> []")
    case False
    then have "restock_extras smp all_items ts stock g1 = (Some stock', g')"
      using Cons.prems(2) r by (auto simp: Let_def split: if_splits)
    then show ?thesis using Cons.IH Cons.prems(1) by blast
  next
    case True
    obtain sel g2 where s: "smp 1 ?tier_items g1 = (sel, g2)"
      by (cases "smp 1 ?tier_items g1")
    show ?thesis
    proof (cases sel)
      case Nil
      then show ?thesis using Cons.prems(2) r True s by (simp add: Let_def)
    next
      case (Cons it rest)
      obtain it' g3 where v: "apply_price_variation it g2 = (it', g3)"
        by (cases "apply_price_variation it g2")
      have "1 \<le> price_copper it'"
        using apply_price_variation_price [of it g2] v by simp
      then have pre: "\<forall>i \<in> set (stock @ [it']). 1 \<le> price_copper i"
        using Cons.prems(1) by auto
      have "restock_extras smp all_items ts (stock @ [it']) g3 = (Some stock', g')"
        using Cons.prems(2) r True s Cons v by (simp add: Let_def)
      then show ?thesis using Cons.IH pre by blast
    qed
  qed
qed

lemma generate_inventory_price:
  "\<forall>it \<in> set (fst (generate_inventory db smp g)). 1 \<le> price_copper it"
proof (cases "get_all_items_by_tier db 6 = []")
  case True
  then show ?thesis by (simp add: generate_inventory_def)
next
  case False
  let ?all = "get_all_items_by_tier db 6"
  obtain stock g1 where a: "restock_by_type smp ?all restock_counts [] g = (stock, g1)"
    by (cases "restock_by_type smp ?all restock_counts [] g")
  obtain res g2 where b: "restock_extras smp ?all [1, 2, 3, 4, 5, 6] stock g1 = (res, g2)"
    by (cases "restock_extras smp ?all [1, 2, 3, 4, 5, 6] stock g1")
  have s1: "\<forall>it \<in> set stock. 1 \<le> price_copper it"
    using restock_by_type_price [of "[]" smp ?all restock_counts g] a by simp
  show ?thesis
  proof (cases res)
    case None
    then show ?thesis using False a b by (simp add: generate_inventory_def)
  next
    case (Some stock')
    then have "\<forall>it \<in> set stock'. 1 \<le> price_copper it"
      using restock_extras_price [OF s1] b by blast
    then show ?thesis using False a b Some by (simp add: generate_inventory_def)
  qed
qed

lemma merchant_state_price:
  "merchant_state db smp m \<Longrightarrow> \<forall>it \<in> set (merchant_inventory m). 1 \<le> price_copper it"
proof (induction rule: merchant_state.induct)
  case (fresh g)
  then show ?case
    using generate_inventory_price [of db smp g]
    by (simp add: Merchant_init_def split: prod.splits)
next
  case (refreshed m g)
  then show ?case
    using generate_inventory_price [of db smp g]
    by (simp add: refresh_inventory_def split: prod.splits)
next
  case (bought m player nm)
  have "set (merchant_inventory (fst (snd (buy_item m player nm)))) \<subseteq> set (merchant_inventory m)"
    using set_remove1_subset [of _ "merchant_inventory m"]
    by (auto simp: buy_item_def Let_def split: option.splits)
  then show ?case using bought.IH by blast
qed

lemma find_item: "find P xs = Some x \<Longrightarrow> x \<in> set xs \<and> P x"
  by (induction xs) (auto split: if_splits)

lemma max_one_py_int: "max 1 (py_int x) = max 1 \<lfloor>x\<rfloor>"
proof (cases "x < 0")
  case True
  then have "\<lceil>x\<rceil> \<le> 0" and "\<lfloor>x\<rfloor> \<le> 0"
    by (simp_all add: ceiling_le_zero floor_le_zero)
  then show ?thesis using True unfolding py_int_def by simp
next
  case False
  then show ?thesis by (simp add: py_int_def)
qed

lemma get_item_value_floor:
  "get_item_value it = max 1 \<lfloor>real_of_int (price_copper it) * (1 / 2)\<rfloor>"
  unfolding get_item_value_def sell_price_ratio_def max_one_py_int by simp

lemma get_item_value_le: "1 \<le> price_copper it \<Longrightarrow> get_item_value it \<le> price_copper it"
proof -
  assume p: "1 \<le> price_copper it"
  have "\<lfloor>real_of_int (price_copper it) * (1 / 2)\<rfloor> = price_copper it div 2"
    by (simp add: floor_divide_of_int_eq [of _ 2, simplified])
  then show ?thesis using p by (simp add: get_item_value_floor)
qed

lemma remove_item_money: "money (snd (remove_item c it)) = money c"
  by (simp add: remove_item_def split: option.splits)

text \<open>
  Claim C8. For every merchant a game can hold and every player: after a successful purchase
  the bought item is in the player's inventory, and selling it back succeeds and leaves the
  player with no more money than before the purchase. The sale credits
  max(1, floor(price * 0.5)), never more than the price paid. Selling an item that is not
  in the inventory fails and changes nothing, and no sale changes the merchant's stock.
\<close>

theorem buy_then_sell_gains_nothing:
  assumes "merchant_state db smp m"
  shows "(\<forall>nm m' p'. buy_item m p nm = (True, m', p') \<longrightarrow>
            (\<exists>it \<in> set (merchant_inventory m).
                item_name it = nm \<and> 1 \<le> price_copper it
              \<and> money p' = money p - price_copper it
              \<and> it \<in> set (inventory p')
              \<and> get_item_value it \<le> price_copper it
              \<and> (\<exists>p''. sell_item m' p' it = (True, m', p'')
                     \<and> money p'' = money p' + get_item_value it
                     \<and> money p'' \<le> money p)))
     \<and> (\<forall>it. get_item_value it = max 1 \<lfloor>real_of_int (price_copper it) * (1 / 2)\<rfloor>)
     \<and> (\<forall>it. it \<notin> set (inventory p) \<longrightarrow> sell_item m p it = (False, m, p))
     \<and> (\<forall>it. fst (snd (sell_item m p it)) = m)"
proof -
  have buy: "\<exists>it \<in> set (merchant_inventory m).
                item_name it = nm \<and> 1 \<le> price_copper it
              \<and> money p' = money p - price_copper it
              \<and> it \<in> set (inventory p')
              \<and> get_item_value it \<le> price_copper it
              \<and> (\<exists>p''. sell_item m' p' it = (True, m', p'')
                     \<and> money p'' = money p' + get_item_value it
                     \<and> money p'' \<le> money p)"
    if b: "buy_item m p nm = (True, m', p')" for nm m' p'
  proof -
    obtain it where f: "find (\<lambda>i. item_name i = nm) (merchant_inventory m) = Some it"
      using b by (cases "find (\<lambda>i. item_name i = nm) (merchant_inventory m)")
        (simp_all add: buy_item_def)
    have mem: "it \<in> set (merchant_inventory m)" and nm: "item_name it = nm"
      using find_item [OF f] by simp_all
    have price: "1 \<le> price_copper it"
      using merchant_state_price [OF assms] mem by blast
    have p': "p' = add_item (p\<lparr>money := money p - price_copper it\<rparr>) it"
      using b f by (simp add: buy_item_def Let_def split: if_splits)
    have mon: "money p' = money p - price_copper it" and inv: "it \<in> set (inventory p')"
      by (simp_all add: p' add_item_def)
    have le: "get_item_value it \<le> price_copper it"
      using get_item_value_le [OF price] .
    let ?p'' = "snd (remove_item (p'\<lparr>money := money p' + get_item_value it\<rparr>) it)"
    have sell: "sell_item m' p' it = (True, m', ?p'')"
      using inv by (simp add: sell_item_def Let_def)
    have "money ?p'' = money p' + get_item_value it"
      by (simp add: remove_item_money)
    then show ?thesis using mem nm price mon inv le sell by auto
  qed
  have "\<forall>it. it \<notin> set (inventory p) \<longrightarrow> sell_item m p it = (False, m, p)"
    by (simp add: sell_item_def)
  moreover have "\<forall>it. fst (snd (sell_item m p it)) = m"
    by (simp add: sell_item_def Let_def)
  ultimately show ?thesis using buy get_item_value_floor by blast
qed

lemma demo_merchant_stock:
  "merchant_inventory demo_merchant
     = [demo_sword\<lparr>price_copper := 80\<rparr>, demo_potion\<lparr>price_copper := 8\<rparr>,
        demo_potion\<lparr>price_copper := 8\<rparr>]"
  by (simp add: demo_merchant_def Merchant_init_def generate_inventory_def demo_db_def
      restock_counts_def demo_sampler_def demo_potion_def demo_sword_def Let_def
      apply_price_variation_def uniform_def random_random_def price_variation_def py_int_def)

theorem buy_then_sell_gains_nothing_witness:
  "merchant_state demo_db demo_sampler demo_merchant
   \<and> (\<exists>m' p' p''. buy_item demo_merchant demo_player ''Rusty Sword'' = (True, m', p')
         \<and> money p' = 20
         \<and> sell_item m' p' (demo_sword\<lparr>price_copper := 80\<rparr>) = (True, m', p'')
         \<and> money p'' = 60 \<and> money p'' \<le> money demo_player)
   \<and> sell_item demo_merchant demo_player demo_sword = (False, demo_merchant, demo_player)"
proof -
  have st: "merchant_state demo_db demo_sampler demo_merchant"
    unfolding demo_merchant_def by (rule merchant_state.fresh)
  have buy: "buy_item demo_merchant demo_player ''Rusty Sword''
      = (True, demo_merchant\<lparr>merchant_inventory := [demo_potion\<lparr>price_copper := 8\<rparr>,
                 demo_potion\<lparr>price_copper := 8\<rparr>]\<rparr>,
         demo_player\<lparr>money := 20, inventory := [demo_sword\<lparr>price_copper := 80\<rparr>]\<rparr>)"
    by (simp add: buy_item_def demo_merchant_stock can_afford_def add_item_def Let_def
        demo_player_def demo_sword_def demo_potion_def)
  have sell: "sell_item (demo_merchant\<lparr>merchant_inventory := [demo_potion\<lparr>price_copper := 8\<rparr>,
                 demo_potion\<lparr>price_copper := 8\<rparr>]\<rparr>)
         (demo_player\<lparr>money := 20, inventory := [demo_sword\<lparr>price_copper := 80\<rparr>]\<rparr>)
         (demo_sword\<lparr>price_copper := 80\<rparr>)
      = (True, demo_merchant\<lparr>merchant_inventory := [demo_potion\<lparr>price_copper := 8\<rparr>,
                 demo_potion\<lparr>price_copper := 8\<rparr>]\<rparr>,
         demo_player\<lparr>money := 60, inventory := []\<rparr>)"
    by (simp add: sell_item_def get_item_value_def sell_price_ratio_def py_int_def
        remove_item_def Let_def demo_player_def)
  have none: "sell_item demo_merchant demo_player demo_sword = (False, demo_merchant, demo_player)"
    by (simp add: sell_item_def demo_player_def)
  have "money demo_player = 100"
    by (simp add: demo_player_def)
  then show ?thesis
    using st buy_then_sell_gains_nothing [OF st, of demo_player] buy sell none
    by simp
qed

section \<open>Snapshots of a character\<close>

lemma demo_hero_value:
  "Character_init demo_db ''Hero'' 25 1 0 None [] None None None 0 True = Inr demo_hero
   \<and> inventory demo_hero = replicate 5 demo_potion \<and> money demo_hero = 100
   \<and> equipped_weapon demo_hero = None"
  by (simp add: demo_hero_def Character_init_def load_stats_def demo_db_def
      initialize_starting_equipment_def demo_tier_def Let_def)

lemma demo_seller_value:
  "inventory demo_seller = [] \<and> money demo_seller = 125 \<and> equipped_weapon demo_seller = None
   \<and> tier demo_seller = 1"
  by (simp add: demo_seller_def demo_hero_def Character_init_def load_stats_def demo_db_def
      initialize_starting_equipment_def demo_tier_def Let_def sell_item_def get_item_value_def
      sell_price_ratio_def py_int_def remove_item_def demo_potion_def numeral_eq_Suc)

text \<open>
  Claim C9 (snapshot, reconstruct, snapshot yields the same snapshot) fails for a
  character. A new character of the example catalog sells its five starting potions; it then
  has an empty inventory, no weapon and 125 copper. Reconstructing it from its snapshot
  runs the starting-equipment step again: the reconstructed character carries five potions
  and exactly 100 copper, so its snapshot differs.
\<close>

theorem character_round_trip_restocks:
  "\<exists>c'. Character_from_dict demo_db (to_dict demo_seller) = Inr c'
        \<and> to_dict c' \<noteq> to_dict demo_seller
        \<and> snap_inventory (to_dict demo_seller) = []
        \<and> snap_money (to_dict demo_seller) = 125
        \<and> snap_inventory (to_dict c') = replicate 5 demo_potion
        \<and> snap_money (to_dict c') = 100"
proof -
  obtain c' where c': "Character_from_dict demo_db (to_dict demo_seller) = Inr c'"
    and inv: "inventory c' = replicate 5 demo_potion" and mon: "money c' = 100"
    using demo_seller_value
    by (simp add: Character_from_dict_def to_dict_def Character_init_def load_stats_def
        demo_db_def demo_tier_def Let_def initialize_starting_equipment_def)
  have "snap_inventory (to_dict c') \<noteq> snap_inventory (to_dict demo_seller)"
    using inv demo_seller_value by (simp add: to_dict_def)
  then have "to_dict c' \<noteq> to_dict demo_seller" by auto
  then show ?thesis
    using c' inv mon demo_seller_value by (auto simp: to_dict_def)
qed

section \<open>Movement\<close>

lemma direction_map_dom:
  "direction_map dir \<noteq> None \<longleftrightarrow> dir \<in> {''north'', ''south'', ''east'', ''west''}"
  by (simp add: direction_map_def)

lemma for_each_try_invariant:
  assumes "P s" and "\<And>x s ok s'. P s \<Longrightarrow> body x s = (ok, s') \<Longrightarrow> P s'"
  shows "P (for_each_try xs body s)"
  using assms(1)
proof (induction xs arbitrary: s)
  case Nil
  then show ?case by simp
next
  case (Cons x xs)
  obtain ok s' where b: "body x s = (ok, s')" by (cases "body x s")
  have "P s'" using assms(2) [OF Cons.prems b] .
  then show ?case using Cons.IH [of s'] b by simp
qed

lemma update_visibility_fields:
  "player_pos (update_visibility d) = player_pos d \<and> d_size (update_visibility d) = d_size d
   \<and> d_tier (update_visibility d) = d_tier d"
  by (simp add: update_visibility_def split: prod.splits)

lemma move_player_size: "d_size (snd (move_player d direction)) = d_size d"
  by (simp add: move_player_def Let_def update_visibility_fields
      split: option.splits prod.splits)







text \<open>
  Claim C10. For a direction string that is none of north, south, east and west,
  \<^verbatim>\<open>move_player\<close> returns false and leaves the dungeon unchanged; it raises nothing, also
  when the door dictionary of the room has an entry for that string.
\<close>

theorem move_player_unknown_direction:
  assumes "direction \<notin> {''north'', ''south'', ''east'', ''west''}"
  shows "move_player d direction = (False, d)"
proof -
  have "direction_map direction = None"
    using assms direction_map_dom [of direction] by blast
  then show ?thesis
    by (simp add: move_player_def split: option.splits)
qed

theorem move_player_unknown_direction_witness:
  "move_player demo_dungeon ''up'' = (False, demo_dungeon)
   \<and> move_player (demo_dungeon\<lparr>rooms := [[Room\<lparr>doors := (doors Room)(''up'' \<mapsto> True)\<rparr>]]\<rparr>) ''up''
       = (False, demo_dungeon\<lparr>rooms := [[Room\<lparr>doors := (doors Room)(''up'' \<mapsto> True)\<rparr>]]\<rparr>)"
  using move_player_unknown_direction [of "''up''" demo_dungeon]
    move_player_unknown_direction [of "''up''"
      "demo_dungeon\<lparr>rooms := [[Room\<lparr>doors := (doors Room)(''up'' \<mapsto> True)\<rparr>]]\<rparr>"]
  by simp

section \<open>The maze\<close>

subsection \<open>Growing a tree by a leaf\<close>

lemma edges_finite:
  assumes "finite V" and "L \<subseteq> V \<times> V"
  shows "finite ((\<lambda>(a, b). {a, b}) ` L)"
proof -
  have "finite (V \<times> V)" using assms(1) by simp
  then have "finite L" using assms(2) finite_subset by blast
  then show ?thesis by simp
qed

lemma leaf_edge_new:
  assumes "L \<subseteq> V \<times> V" and "b \<notin> V"
  shows "{a, b} \<notin> (\<lambda>(a, b). {a, b}) ` L"
proof
  assume "{a, b} \<in> (\<lambda>(a, b). {a, b}) ` L"
  then obtain c c' where cc: "(c, c') \<in> L" "{a, b} = {c, c'}" by auto
  then have "c \<in> V" "c' \<in> V" using assms(1) by auto
  moreover have "b = c \<or> b = c'" using cc(2) by (auto simp: doubleton_eq_iff)
  ultimately show False using assms(2) by auto
qed

lemma leaf_cycle_free:
  assumes sub: "L \<subseteq> V \<times> V" and b: "b \<notin> V" and a: "a \<in> V"
    and free: "\<nexists>cs. is_cycle L cs"
  shows "\<nexists>cs. is_cycle (L \<union> {(a, b), (b, a)}) cs"
proof
  let ?L' = "L \<union> {(a, b), (b, a)}"
  assume "\<exists>cs. is_cycle ?L' cs"
  then obtain cs where cyc: "is_cycle ?L' cs" by blast
  let ?n = "length cs"
  have n: "3 \<le> ?n" and dist: "distinct cs"
    and step: "\<And>i. i < ?n \<Longrightarrow> (cs ! i, cs ! (Suc i mod ?n)) \<in> ?L'"
    using cyc by (simp_all add: is_cycle_def)
  have pos: "0 < ?n" using n by linarith
  have wrap: "\<And>i. Suc i mod ?n < ?n" using mod_less_divisor [OF pos] .
  have from_b: "\<And>c. (b, c) \<in> ?L' \<Longrightarrow> c = a" using sub b by auto
  have to_b: "\<And>c. (c, b) \<in> ?L' \<Longrightarrow> c = a" using sub b by auto
  show False
  proof (cases "b \<in> set cs")
    case False
    have "(cs ! i, cs ! (Suc i mod ?n)) \<in> L" if i: "i < ?n" for i
    proof -
      have "cs ! i \<in> set cs" using i by simp
      then have "cs ! i \<noteq> b" using False by blast
      moreover have "cs ! (Suc i mod ?n) \<in> set cs" using wrap [of i] by simp
      then have "cs ! (Suc i mod ?n) \<noteq> b" using False by blast
      ultimately show ?thesis using step [OF i] by simp
    qed
    then have "is_cycle L cs" using n dist by (simp add: is_cycle_def)
    then show False using free by blast
  next
    case True
    then obtain i where i: "i < ?n" "cs ! i = b" unfolding in_set_conv_nth by blast
    define j where "j = (if i = 0 then ?n - 1 else i - 1)"
    have j: "j < ?n" "Suc j mod ?n = i"
    proof -
      show "j < ?n" using i(1) pos unfolding j_def by (cases "i = 0") simp_all
      show "Suc j mod ?n = i"
      proof (cases "i = 0")
        case True
        then have "Suc j = ?n" using pos by (simp add: j_def)
        then show ?thesis using True by simp
      next
        case False
        then have "Suc j = i" by (simp add: j_def)
        then show ?thesis using i(1) by simp
      qed
    qed
    have "(b, cs ! (Suc i mod ?n)) \<in> ?L'"
      using step [OF i(1)] i(2) by simp
    then have "cs ! (Suc i mod ?n) = a" by (rule from_b)
    moreover have "(cs ! j, b) \<in> ?L'"
      using step [OF j(1)] j(2) i(2) by simp
    then have "cs ! j = a" by (rule to_b)
    ultimately have "cs ! (Suc i mod ?n) = cs ! j" by simp
    then have "Suc i mod ?n = j"
      using nth_eq_iff_index_eq [OF dist wrap [of i] j(1)] by blast
    moreover have "Suc i mod ?n \<noteq> j"
    proof (cases "Suc i = ?n")
      case True
      then have "Suc i mod ?n = 0" by simp
      moreover have "j \<noteq> 0" using True n unfolding j_def by arith
      ultimately show ?thesis by simp
    next
      case False
      then have "Suc i mod ?n = Suc i" using i(1) by simp
      moreover have "j \<noteq> Suc i" using n unfolding j_def by arith
      ultimately show ?thesis by simp
    qed
    ultimately show False by simp
  qed
qed

lemma tree_on_leaf:
  assumes t: "tree_on start L V" and a: "a \<in> V" and b: "b \<notin> V"
  shows "tree_on start (L \<union> {(a, b), (b, a)}) (insert b V)"
proof -
  let ?L' = "L \<union> {(a, b), (b, a)}"
  let ?E = "\<lambda>L. (\<lambda>(a, b). {a, b}) ` L"
  have fin: "finite V" and st: "start \<in> V" and sub: "L \<subseteq> V \<times> V" and sy: "sym L"
    and reach: "\<And>c. c \<in> V \<Longrightarrow> (start, c) \<in> L\<^sup>*"
    and cnt: "card (?E L) + 1 = card V" and free: "\<nexists>cs. is_cycle L cs"
    using t by (simp_all add: tree_on_def)
  have sub': "?L' \<subseteq> insert b V \<times> insert b V" using sub a by auto
  have sy': "sym ?L'" using sy by (auto simp: sym_def)
  have mono: "L\<^sup>* \<subseteq> ?L'\<^sup>*" by (rule rtrancl_mono) blast
  have reach': "(start, c) \<in> ?L'\<^sup>*" if "c \<in> insert b V" for c
  proof (cases "c = b")
    case True
    have "(start, a) \<in> ?L'\<^sup>*" using reach [OF a] mono by blast
    moreover have "(a, b) \<in> ?L'" by simp
    ultimately have "(start, b) \<in> ?L'\<^sup>*" by (rule rtrancl_into_rtrancl)
    then show ?thesis using True by simp
  next
    case False
    then show ?thesis using that reach mono by blast
  qed
  have "{b, a} = {a, b}" by (rule insert_commute)
  then have E': "?E ?L' = insert {a, b} (?E L)" by (simp add: image_Un)
  have "card (?E ?L') = card (?E L) + 1"
    unfolding E' using edges_finite [OF fin sub] leaf_edge_new [OF sub b] by simp
  then have cnt': "card (?E ?L') + 1 = card (insert b V)"
    using cnt fin b by simp
  have free': "\<nexists>cs. is_cycle ?L' cs"
    using leaf_cycle_free [OF sub b a free] .
  show ?thesis
    unfolding tree_on_def using fin st sub' sy' reach' cnt' free' by simp
qed

subsection \<open>The grid\<close>

lemma py_index_in: "0 \<le> i \<Longrightarrow> i < int (length xs) \<Longrightarrow> py_index xs i = Some (nat i)"
  by (simp add: py_index_def Let_def)

lemma grid_ok_row:
  assumes "grid_ok sz rs" and "in_grid sz (x, y)"
  shows "nat y < length rs" and "nat x < length (rs ! nat y)"
    and "int (length rs) = sz" and "int (length (rs ! nat y)) = sz"
proof -
  have len: "length rs = nat sz" and y: "0 \<le> y" "y < sz" and x: "0 \<le> x" "x < sz"
    using assms by (simp_all add: grid_ok_def in_grid_def)
  show ny: "nat y < length rs" using len y by simp
  then have "rs ! nat y \<in> set rs" by simp
  then have row: "length (rs ! nat y) = nat sz" using assms(1) by (simp add: grid_ok_def)
  show "nat x < length (rs ! nat y)" using row x by simp
  show "int (length rs) = sz" using len y by simp
  show "int (length (rs ! nat y)) = sz" using row y by simp
qed

lemma room_at_grid:
  assumes "grid_ok sz rs" and "in_grid sz (x, y)"
  shows "room_at rs x y = Some (rs ! nat y ! nat x)"
proof -
  have "py_index rs y = Some (nat y)"
    using grid_ok_row(3) [OF assms] assms(2) by (intro py_index_in) (simp_all add: in_grid_def)
  moreover have "py_index (rs ! nat y) x = Some (nat x)"
    using grid_ok_row(4) [OF assms] assms(2) by (intro py_index_in) (simp_all add: in_grid_def)
  ultimately show ?thesis by (simp add: room_at_def)
qed

lemma update_room_grid:
  assumes "grid_ok sz rs" and "in_grid sz (x, y)"
  shows "update_room f x y rs
           = Some (rs[nat y := (rs ! nat y)[nat x := f (rs ! nat y ! nat x)]])"
proof -
  have "py_index rs y = Some (nat y)"
    using grid_ok_row(3) [OF assms] assms(2) by (intro py_index_in) (simp_all add: in_grid_def)
  moreover have "py_index (rs ! nat y) x = Some (nat x)"
    using grid_ok_row(4) [OF assms] assms(2) by (intro py_index_in) (simp_all add: in_grid_def)
  ultimately show ?thesis by (simp add: update_room_def)
qed

lemma update_room_shape:
  assumes "update_room f x y rs = Some rs'"
  shows "map length rs' = map length rs"
proof -
  obtain j i where "rs' = rs[j := (rs ! j)[i := f (rs ! j ! i)]]" and "j < length rs"
    using assms
    by (auto simp: update_room_def py_index_def Let_def split: option.splits if_splits)
  then show ?thesis by (simp add: map_update list_update_same_conv)
qed

lemma update_room_doors:
  assumes "update_room f x y rs = Some rs'" and "\<And>r. doors (f r) = doors r"
  shows "door_grid rs' = door_grid rs"
proof -
  obtain j i where rs': "rs' = rs[j := (rs ! j)[i := f (rs ! j ! i)]]" and j: "j < length rs"
    and i: "i < length (rs ! j)"
    using assms(1)
    by (auto simp: update_room_def py_index_def Let_def split: option.splits if_splits)
  have "map doors ((rs ! j)[i := f (rs ! j ! i)]) = map doors (rs ! j)"
    using i by (simp add: map_update assms(2) list_update_same_conv)
  then show ?thesis
    using j by (simp add: door_grid_def rs' map_update list_update_same_conv)
qed

lemma update_room_grid_ok:
  assumes g: "grid_ok sz rs" and u: "update_room f x y rs = Some rs'"
    and keys: "\<And>r dir. doors r dir \<noteq> None \<Longrightarrow> doors (f r) dir \<noteq> None"
  shows "grid_ok sz rs'"
proof -
  obtain j i where rs': "rs' = rs[j := (rs ! j)[i := f (rs ! j ! i)]]"
    and j: "j < length rs" and i: "i < length (rs ! j)"
    using u by (auto simp: update_room_def py_index_def Let_def split: option.splits if_splits)
  let ?ok = "\<lambda>r. \<forall>dir \<in> {''north'', ''south'', ''east'', ''west''}. doors r dir \<noteq> None"
  have old: "\<And>row. row \<in> set rs \<Longrightarrow> length row = nat sz \<and> (\<forall>r \<in> set row. ?ok r)"
    using g by (simp add: grid_ok_def)
  have rowj: "rs ! j \<in> set rs" using j by simp
  have "?ok (rs ! j ! i)" using old [OF rowj] i by simp
  then have new_room: "?ok (f (rs ! j ! i))" using keys by blast
  let ?row = "(rs ! j)[i := f (rs ! j ! i)]"
  have "set ?row \<subseteq> insert (f (rs ! j ! i)) (set (rs ! j))" by (rule set_update_subset_insert)
  then have new_row: "length ?row = nat sz \<and> (\<forall>r \<in> set ?row. ?ok r)"
    using old [OF rowj] new_room by auto
  have "set rs' \<subseteq> insert ?row (set rs)" unfolding rs' by (rule set_update_subset_insert)
  then have "\<And>row. row \<in> set rs' \<Longrightarrow> length row = nat sz \<and> (\<forall>r \<in> set row. ?ok r)"
    using old new_row by blast
  moreover have "length rs' = nat sz" using g by (simp add: rs' grid_ok_def)
  ultimately show ?thesis by (simp add: grid_ok_def)
qed

lemma room_at_update:
  assumes g: "grid_ok sz rs" and c: "in_grid sz (x, y)" and c': "in_grid sz (x', y')"
    and u: "update_room f x y rs = Some rs'"
  shows "room_at rs' x' y'
           = (if (x', y') = (x, y) then map_option f (room_at rs x y) else room_at rs x' y')"
proof -
  have rs': "rs' = rs[nat y := (rs ! nat y)[nat x := f (rs ! nat y ! nat x)]]"
    using update_room_grid [OF g c, of f] u by simp
  have shape: "map length rs' = map length rs" using update_room_shape [OF u] .
  have len: "length rs' = length rs" using shape by (metis length_map)
  have ny': "nat y' < length rs" and ny: "nat y < length rs"
    using grid_ok_row(1) [OF g c'] grid_ok_row(1) [OF g c] by simp_all
  have row_len: "length (rs' ! nat y') = length (rs ! nat y')"
    using shape ny' len by (metis nth_map)
  have i1: "py_index rs' y' = Some (nat y')"
    using grid_ok_row(3) [OF g c'] c' len by (intro py_index_in) (simp_all add: in_grid_def)
  have i2: "py_index (rs' ! nat y') x' = Some (nat x')"
    using grid_ok_row(4) [OF g c'] c' row_len by (intro py_index_in) (simp_all add: in_grid_def)
  have at': "room_at rs' x' y' = Some (rs' ! nat y' ! nat x')"
    using i1 i2 by (simp add: room_at_def)
  have nx: "nat x < length (rs ! nat y)" using grid_ok_row(2) [OF g c] .
  have xy: "nat x' = nat x \<longleftrightarrow> x' = x" "nat y' = nat y \<longleftrightarrow> y' = y"
    using c c' by (auto simp: in_grid_def)
  show ?thesis
  proof (cases "y' = y")
    case True
    show ?thesis
    proof (cases "x' = x")
      case same: True
      then show ?thesis
        using True at' ny nx room_at_grid [OF g c] by (simp add: rs')
    next
      case False
      then have "nat x \<noteq> nat x'" using xy(1) by simp
      then show ?thesis
        using True False at' ny room_at_grid [OF g c'] by (simp add: rs')
    qed
  next
    case False
    then have "rs' ! nat y' = rs ! nat y'" using xy(2) by (simp add: rs')
    then show ?thesis using at' False room_at_grid [OF g c'] by simp
  qed
qed

subsection \<open>Opening doors\<close>

lemma open_door_grid:
  assumes g: "grid_ok sz rs" and c: "in_grid sz (x, y)"
  shows "\<exists>rs'. open_door x y dir rs = Inr rs' \<and> grid_ok sz rs'
            \<and> (\<forall>c' d. in_grid sz c' \<longrightarrow>
                  door_open rs' c' d = (door_open rs c' d \<or> (c' = (x, y) \<and> d = dir)))"
proof -
  let ?f = "\<lambda>r. r\<lparr>doors := (doors r)(dir \<mapsto> True)\<rparr>"
  obtain rs' where u: "update_room ?f x y rs = Some rs'"
    using update_room_grid [OF g c] by blast
  have ok: "grid_ok sz rs'"
    by (rule update_room_grid_ok [OF g u]) auto
  have "door_open rs' c' d = (door_open rs c' d \<or> (c' = (x, y) \<and> d = dir))"
    if c': "in_grid sz c'" for c' d
  proof -
    obtain x' y' where [simp]: "c' = (x', y')" by (cases c')
    have c'': "in_grid sz (x', y')" using c' by simp
    show ?thesis
      using room_at_update [OF g c c'' u] room_at_grid [OF g c]
      by (auto simp: door_open_def split: option.splits)
  qed
  then show ?thesis using u ok by (simp add: open_door_def)
qed

lemma directions_map:
  assumes "(dx, dy, dir1, dir2) \<in> set directions"
  shows "direction_map dir1 = Some (dx, dy)" and "direction_map dir2 = Some (- dx, - dy)"
    and "(dx, dy) \<noteq> (0, 0)" and "dir2 = opposite dir1"
  using assms by (auto simp: directions_def direction_map_def opposite_def)

lemma direction_map_directions:
  assumes "direction_map dir = Some (dx, dy)"
  shows "(dx, dy, dir, opposite dir) \<in> set directions"
  using assms by (auto simp: directions_def direction_map_def opposite_def split: if_splits)

lemma direction_map_Some:
  "direction_map d = Some v \<longleftrightarrow>
     (d = ''north'' \<and> v = (0, - 1)) \<or> (d = ''south'' \<and> v = (0, 1))
     \<or> (d = ''east'' \<and> v = (1, 0)) \<or> (d = ''west'' \<and> v = (- 1, 0))"
  by (auto simp: direction_map_def)

lemma direction_map_inj:
  assumes "direction_map d = Some v" and "direction_map d' = Some v"
  shows "d = d'"
proof -
  have "v = (0, - 1) \<or> v = (0, 1) \<or> v = (1, 0) \<or> v = (- 1, 0)"
    using assms(1) unfolding direction_map_Some by blast
  then show ?thesis
  proof (elim disjE)
    assume "v = (0, - 1)"
    then show ?thesis using assms unfolding direction_map_Some by simp
  next
    assume "v = (0, 1)"
    then show ?thesis using assms unfolding direction_map_Some by simp
  next
    assume "v = (1, 0)"
    then show ?thesis using assms unfolding direction_map_Some by simp
  next
    assume "v = (- 1, 0)"
    then show ?thesis using assms unfolding direction_map_Some by simp
  qed
qed


lemma linksI:
  assumes "direction_map dir = Some (ex, ey)" and "in_grid sz c"
    and "in_grid sz (fst c + ex, snd c + ey)" and "door_open rs c dir"
  shows "(c, (fst c + ex, snd c + ey)) \<in> links sz rs"
  using assms unfolding links_def by blast

lemma links_open_doors:
  assumes g: "grid_ok sz rs" and d: "(dx, dy, dir1, dir2) \<in> set directions"
    and a: "in_grid sz (x, y)" and b: "in_grid sz (x + dx, y + dy)"
  shows "\<exists>rs1 rs2. open_door x y dir1 rs = Inr rs1
            \<and> open_door (x + dx) (y + dy) dir2 rs1 = Inr rs2
            \<and> grid_ok sz rs2
            \<and> links sz rs2 = links sz rs \<union> {((x, y), (x + dx, y + dy)), ((x + dx, y + dy), (x, y))}"
proof -
  obtain rs1 where o1: "open_door x y dir1 rs = Inr rs1" and g1: "grid_ok sz rs1"
    and d1: "\<And>c' d. in_grid sz c' \<Longrightarrow>
              door_open rs1 c' d = (door_open rs c' d \<or> (c' = (x, y) \<and> d = dir1))"
    using open_door_grid [OF g a, of dir1] by blast
  obtain rs2 where o2: "open_door (x + dx) (y + dy) dir2 rs1 = Inr rs2" and g2: "grid_ok sz rs2"
    and d2: "\<And>c' d. in_grid sz c' \<Longrightarrow>
              door_open rs2 c' d = (door_open rs1 c' d \<or> (c' = (x + dx, y + dy) \<and> d = dir2))"
    using open_door_grid [OF g1 b, of dir2] by blast
  have dd: "\<And>c' d. in_grid sz c' \<Longrightarrow>
      door_open rs2 c' d = (door_open rs c' d \<or> (c' = (x, y) \<and> d = dir1)
                             \<or> (c' = (x + dx, y + dy) \<and> d = dir2))"
    using d1 d2 by blast
  note dm = directions_map [OF d]
  have "links sz rs2 = links sz rs \<union> {((x, y), (x + dx, y + dy)), ((x + dx, y + dy), (x, y))}"
  proof (intro set_eqI iffI)
    fix p assume p: "p \<in> links sz rs2"
    obtain c c' where [simp]: "p = (c, c')" by (cases p)
    obtain dir ex ey where l: "direction_map dir = Some (ex, ey)" "c' = (fst c + ex, snd c + ey)"
      "in_grid sz c" "in_grid sz c'" "door_open rs2 c dir"
      using p by (auto simp: links_def)
    consider "door_open rs c dir" | "c = (x, y)" "dir = dir1" | "c = (x + dx, y + dy)" "dir = dir2"
      using dd [OF l(3)] l(5) by blast
    then show "p \<in> links sz rs \<union> {((x, y), (x + dx, y + dy)), ((x + dx, y + dy), (x, y))}"
    proof cases
      case 1
      then have "(c, c') \<in> links sz rs" using l by (auto simp: links_def)
      then show ?thesis by simp
    next
      case 2
      then show ?thesis using l dm by simp
    next
      case 3
      then show ?thesis using l dm by simp
    qed
  next
    fix p assume p: "p \<in> links sz rs \<union> {((x, y), (x + dx, y + dy)), ((x + dx, y + dy), (x, y))}"
    then consider "p \<in> links sz rs" | "p = ((x, y), (x + dx, y + dy))" | "p = ((x + dx, y + dy), (x, y))"
      by blast
    then show "p \<in> links sz rs2"
    proof cases
      case 1
      obtain c c' where [simp]: "p = (c, c')" by (cases p)
      obtain dir ex ey where l: "direction_map dir = Some (ex, ey)" "c' = (fst c + ex, snd c + ey)"
        "in_grid sz c" "in_grid sz c'" "door_open rs c dir"
        using 1 by (auto simp: links_def)
      have "door_open rs2 c dir" using dd [OF l(3)] l(5) by blast
      then show ?thesis using linksI [OF l(1) l(3)] l(2) l(4) by simp
    next
      case 2
      have "door_open rs2 (x, y) dir1" using dd [OF a] by blast
      then show ?thesis using linksI [OF dm(1) a, of rs2] b by (simp add: 2)
    next
      case 3
      have "door_open rs2 (x + dx, y + dy) dir2" using dd [OF b] by blast
      then show ?thesis using linksI [OF dm(2) b, of rs2] a by (simp add: 3)
    qed
  qed
  then show ?thesis using o1 o2 g2 by blast
qed

subsection \<open>The shuffle tries every direction\<close>

lemma shuffle_from_set:
  "i < length xs \<Longrightarrow> set (fst (shuffle_from i xs g)) = set xs"
proof (induction i arbitrary: xs g)
  case 0
  then show ?case by simp
next
  case (Suc i)
  let ?j = "shd g mod Suc (Suc i)"
  let ?xs = "xs[Suc i := xs ! ?j, ?j := xs ! Suc i]"
  have "?j < Suc (Suc i)" by simp
  then have j: "?j < length xs" using Suc.prems by linarith
  have "set ?xs = set xs" using set_swap [OF Suc.prems j] .
  moreover have "i < length ?xs" using Suc.prems by simp
  ultimately have "set (fst (shuffle_from i ?xs (stl g))) = set xs"
    using Suc.IH [of ?xs "stl g"] by simp
  then show ?case by (simp add: randbelow_def)
qed

lemma shuffle_directions: "set (fst (shuffle directions g)) = set directions"
  unfolding shuffle_def by (rule shuffle_from_set) (simp add: directions_def)

subsection \<open>Iteration with an invariant\<close>

lemma for_each_invariant_aux:
  assumes step: "\<And>x pre s s1. I pre s \<Longrightarrow> x \<in> set xs \<Longrightarrow> body x s = Inr s1 \<Longrightarrow> I (pre @ [x]) s1"
  shows "set ys \<subseteq> set xs \<Longrightarrow> I pre s \<Longrightarrow> for_each ys body s = Inr s' \<Longrightarrow> I (pre @ ys) s'"
proof (induction ys arbitrary: pre s)
  case Nil
  then show ?case by simp
next
  case (Cons y ys)
  obtain s1 where b: "body y s = Inr s1" and rest: "for_each ys body s1 = Inr s'"
    using Cons.prems(3) by (cases "body y s") simp_all
  have sub: "set ys \<subseteq> set xs" and y: "y \<in> set xs" using Cons.prems(1) by simp_all
  have "I (pre @ [y]) s1" using step [OF Cons.prems(2) y b] .
  then have "I ((pre @ [y]) @ ys) s'" using Cons.IH [OF sub _ rest] by blast
  then show ?case by simp
qed

lemma for_each_invariant:
  assumes "for_each xs body s = Inr s'" and "I [] s"
    and "\<And>x pre s s1. I pre s \<Longrightarrow> x \<in> set xs \<Longrightarrow> body x s = Inr s1 \<Longrightarrow> I (pre @ [x]) s1"
  shows "I xs s'"
  using for_each_invariant_aux [where I = I and xs = xs and ys = xs and pre = "[]", OF assms(3) _ assms(2) assms(1)]
  by simp

lemma for_each_total_aux:
  assumes step: "\<And>x s. x \<in> set xs \<Longrightarrow> J s \<Longrightarrow> \<exists>s1. body x s = Inr s1 \<and> J s1"
  shows "set ys \<subseteq> set xs \<Longrightarrow> J s \<Longrightarrow> \<exists>s'. for_each ys body s = Inr s' \<and> J s'"
proof (induction ys arbitrary: s)
  case Nil
  then show ?case by simp
next
  case (Cons y ys)
  obtain s1 where b: "body y s = Inr s1" and j: "J s1"
    using step [of y s] Cons.prems by auto
  obtain s' where "for_each ys body s1 = Inr s'" and "J s'"
    using Cons.IH [OF _ j] Cons.prems(1) by auto
  then show ?case using b by simp
qed

lemma for_each_total:
  assumes "J s" and "\<And>x s. x \<in> set xs \<Longrightarrow> J s \<Longrightarrow> \<exists>s1. body x s = Inr s1 \<and> J s1"
  shows "\<exists>s'. for_each xs body s = Inr s' \<and> J s'"
  using for_each_total_aux [where J = J and xs = xs and ys = xs, OF assms(2) _ assms(1)]
  by simp

subsection \<open>One carving step\<close>

lemma maze_inv_leaf:
  assumes inv: "maze_inv sz rs W" and a: "(x, y) \<in> W"
    and d: "(dx, dy, dir1, dir2) \<in> set directions"
    and b: "in_grid sz (x + dx, y + dy)" and new: "(x + dx, y + dy) \<notin> W"
  shows "\<exists>rs1 rs2. open_door x y dir1 rs = Inr rs1
           \<and> open_door (x + dx) (y + dy) dir2 rs1 = Inr rs2
           \<and> maze_inv sz rs2 (insert (x + dx, y + dy) W)"
proof -
  have g: "grid_ok sz rs" and sub: "W \<subseteq> {c. in_grid sz c}"
    and t: "tree_on (0, 0) (links sz rs) W"
    using inv by (simp_all add: maze_inv_def)
  have a': "in_grid sz (x, y)" using a sub by blast
  obtain rs1 rs2 where o: "open_door x y dir1 rs = Inr rs1"
      "open_door (x + dx) (y + dy) dir2 rs1 = Inr rs2" "grid_ok sz rs2"
      "links sz rs2 = links sz rs \<union> {((x, y), (x + dx, y + dy)), ((x + dx, y + dy), (x, y))}"
    using links_open_doors [OF g d a' b] by blast
  have "tree_on (0, 0) (links sz rs2) (insert (x + dx, y + dy) W)"
    unfolding o(4) using tree_on_leaf [OF t a new] .
  then have "maze_inv sz rs2 (insert (x + dx, y + dy) W)"
    using o(3) sub b by (simp add: maze_inv_def)
  then show ?thesis using o(1,2) by blast
qed

lemma carve_step_skip:
  assumes "\<not> (in_grid sz (x + dx, y + dy) \<and> (x + dx, y + dy) \<notin> W)"
  shows "carve_step recur sz x y (dx, dy, dir1, dir2) (rs, W, g) = Inr (rs, W, g)"
  using assms by (auto simp: carve_step_def in_grid_def Let_def)

lemma carve_step_enter:
  assumes "in_grid sz (x + dx, y + dy)" and "(x + dx, y + dy) \<notin> W"
    and "open_door x y dir1 rs = Inr rs1" and "open_door (x + dx) (y + dy) dir2 rs1 = Inr rs2"
  shows "carve_step recur sz x y (dx, dy, dir1, dir2) (rs, W, g)
           = recur (x + dx) (y + dy) (rs2, W, g)"
  using assms by (simp add: carve_step_def in_grid_def Let_def)

subsection \<open>The carving keeps the tree and closes what it visits\<close>

lemma neighbours_directions:
  assumes "b \<in> neighbours sz (x, y)"
  shows "\<exists>dx dy dir1 dir2. (dx, dy, dir1, dir2) \<in> set directions \<and> b = (x + dx, y + dy)
           \<and> in_grid sz (x + dx, y + dy)"
proof -
  obtain dir dx dy where "direction_map dir = Some (dx, dy)" "b = (x + dx, y + dy)" "in_grid sz b"
    using assms by (auto simp: neighbours_def)
  then show ?thesis using direction_map_directions by blast
qed

lemma carve_path_inv:
  "carve_path depth sz x y (rs, V, g) = Inr (rs', V', g') \<Longrightarrow>
   maze_inv sz rs (insert (x, y) V) \<Longrightarrow>
   maze_inv sz rs' V' \<and> insert (x, y) V \<subseteq> V' \<and> (\<forall>c \<in> V' - V. neighbours sz c \<subseteq> V')"
proof (induction depth arbitrary: x y rs V g rs' V' g')
  case 0
  then show ?case by simp
next
  case (Suc depth)
  obtain dirs g0 where sh: "shuffle directions g = (dirs, g0)"
    by (cases "shuffle directions g")
  have dirs: "set dirs = set directions"
    using shuffle_directions [of g] sh by simp
  let ?W0 = "insert (x, y) V"
  let ?body = "carve_step (carve_path depth sz) sz x y"
  define I where "I = (\<lambda>(pre :: (int \<times> int \<times> string \<times> string) list) (st :: maze_state).
      maze_inv sz (fst st) (fst (snd st)) \<and> ?W0 \<subseteq> fst (snd st)
      \<and> (\<forall>c \<in> fst (snd st) - ?W0. neighbours sz c \<subseteq> fst (snd st))
      \<and> (\<forall>ex ey e1 e2. (ex, ey, e1, e2) \<in> set pre \<longrightarrow>
            in_grid sz (x + ex, y + ey) \<longrightarrow> (x + ex, y + ey) \<in> fst (snd st)))"
  have run: "for_each dirs ?body (rs, ?W0, g0) = Inr (rs', V', g')"
    using Suc.prems(1) sh by simp
  have init: "I [] (rs, ?W0, g0)"
    using Suc.prems(2) by (auto simp: I_def)
  have step: "I (pre @ [d]) s1"
    if i: "I pre s" and d: "d \<in> set dirs" and b: "?body d s = Inr s1" for d pre s s1
  proof -
    obtain rs0 W g1 where s: "s = (rs0, W, g1)" by (cases s)
    obtain rs1 W1 g2 where s1: "s1 = (rs1, W1, g2)" by (cases s1)
    obtain dx dy dir1 dir2 where dd: "d = (dx, dy, dir1, dir2)" by (cases d)
    have dset: "(dx, dy, dir1, dir2) \<in> set directions" using d dirs dd by simp
    have inv: "maze_inv sz rs0 W" and sub: "?W0 \<subseteq> W"
      and closed: "\<And>c. c \<in> W - ?W0 \<Longrightarrow> neighbours sz c \<subseteq> W"
      and tried: "\<And>ex ey e1 e2. (ex, ey, e1, e2) \<in> set pre \<Longrightarrow> in_grid sz (x + ex, y + ey)
                    \<Longrightarrow> (x + ex, y + ey) \<in> W"
      using i unfolding I_def s fst_conv snd_conv by blast+
    show ?thesis
    proof (cases "in_grid sz (x + dx, y + dy) \<and> (x + dx, y + dy) \<notin> W")
      case False
      then have "s1 = s"
        using b carve_step_skip [of sz x dx y dy W "carve_path depth sz" dir1 dir2 rs0 g1]
        unfolding s dd by simp
      moreover have "\<forall>ex ey e1 e2. (ex, ey, e1, e2) \<in> set (pre @ [d]) \<longrightarrow>
            in_grid sz (x + ex, y + ey) \<longrightarrow> (x + ex, y + ey) \<in> W"
        using tried False dd by auto
      ultimately show ?thesis
        using inv sub closed unfolding I_def s by simp
    next
      case True
      have xy: "(x, y) \<in> W" using sub by blast
      obtain ra rb where o: "open_door x y dir1 rs0 = Inr ra"
          "open_door (x + dx) (y + dy) dir2 ra = Inr rb"
          and inv': "maze_inv sz rb (insert (x + dx, y + dy) W)"
        using maze_inv_leaf [OF inv xy dset] True by blast
      have "carve_path depth sz (x + dx) (y + dy) (rb, W, g1) = Inr (rs1, W1, g2)"
        using b carve_step_enter [OF _ _ o, of sz W "carve_path depth sz" g1] True
        unfolding s dd s1 by simp
      from Suc.IH [OF this inv']
      have r: "maze_inv sz rs1 W1" "insert (x + dx, y + dy) W \<subseteq> W1"
        "\<And>c. c \<in> W1 - W \<Longrightarrow> neighbours sz c \<subseteq> W1"
        by auto
      have c1: "neighbours sz c \<subseteq> W1" if "c \<in> W1 - ?W0" for c
      proof (cases "c \<in> W")
        case True
        then have "neighbours sz c \<subseteq> W" using closed that by blast
        then show ?thesis using r(2) by blast
      next
        case False
        then show ?thesis using r(3) that by blast
      qed
      have c2: "(x + ex, y + ey) \<in> W1"
        if "(ex, ey, e1, e2) \<in> set (pre @ [d])" "in_grid sz (x + ex, y + ey)" for ex ey e1 e2
      proof (cases "(ex, ey, e1, e2) \<in> set pre")
        case True
        then show ?thesis using tried that(2) r(2) by blast
      next
        case False
        then have "ex = dx" "ey = dy" using that(1) dd by simp_all
        then show ?thesis using r(2) by blast
      qed
      have "?W0 \<subseteq> W1" using sub r(2) by blast
      moreover have "\<forall>c \<in> W1 - ?W0. neighbours sz c \<subseteq> W1" using c1 by blast
      moreover have "\<forall>ex ey e1 e2. (ex, ey, e1, e2) \<in> set (pre @ [d]) \<longrightarrow>
            in_grid sz (x + ex, y + ey) \<longrightarrow> (x + ex, y + ey) \<in> W1"
        using c2 by blast
      ultimately show ?thesis
        unfolding I_def s1 using r(1) by simp
    qed
  qed
  have fin: "I dirs (rs', V', g')"
    by (rule for_each_invariant [where I = I, OF run init], rule step)
  have inv: "maze_inv sz rs' V'" and sub: "?W0 \<subseteq> V'"
    and closed: "\<And>c. c \<in> V' - ?W0 \<Longrightarrow> neighbours sz c \<subseteq> V'"
    and tried: "\<And>ex ey e1 e2. (ex, ey, e1, e2) \<in> set directions \<Longrightarrow> in_grid sz (x + ex, y + ey)
                    \<Longrightarrow> (x + ex, y + ey) \<in> V'"
    using fin unfolding I_def dirs fst_conv snd_conv by blast+
  have "neighbours sz (x, y) \<subseteq> V'"
    using neighbours_directions tried by blast
  then have "\<forall>c \<in> V' - V. neighbours sz c \<subseteq> V'"
    using closed by blast
  then show ?case using inv sub by simp
qed

subsection \<open>The carving returns when the recursion limit allows one call per room\<close>

lemma cells_eq: "{c. in_grid sz c} = {0..<sz} \<times> {0..<sz}"
  by (auto simp: in_grid_def)

lemma cells_finite: "finite {c. in_grid sz c}"
  unfolding cells_eq by simp

lemma cells_card: "card {c. in_grid sz c} = nat sz * nat sz"
  unfolding cells_eq by (simp add: card_cartesian_product)

lemma carve_path_total:
  "maze_inv sz rs (insert (x, y) V) \<Longrightarrow> (x, y) \<notin> V \<Longrightarrow>
   card ({c. in_grid sz c} - V) \<le> depth \<Longrightarrow>
   \<exists>st'. carve_path depth sz x y (rs, V, g) = Inr st'"
proof (induction depth arbitrary: x y rs V g)
  case 0
  have "(x, y) \<in> {c. in_grid sz c} - V"
    using "0.prems"(1,2) by (simp add: maze_inv_def)
  moreover have "finite ({c. in_grid sz c} - V)" using cells_finite by simp
  ultimately have "0 < card ({c. in_grid sz c} - V)" using card_gt_0_iff by blast
  then show ?case using "0.prems"(3) by simp
next
  case (Suc depth)
  obtain dirs g0 where sh: "shuffle directions g = (dirs, g0)"
    by (cases "shuffle directions g")
  have dirs: "set dirs = set directions"
    using shuffle_directions [of g] sh by simp
  let ?cells = "{c. in_grid sz c}"
  let ?W0 = "insert (x, y) V"
  let ?body = "carve_step (carve_path depth sz) sz x y"
  define J where "J = (\<lambda>st :: maze_state.
      maze_inv sz (fst st) (fst (snd st)) \<and> (x, y) \<in> fst (snd st)
      \<and> card (?cells - fst (snd st)) \<le> depth)"
  have xy: "(x, y) \<in> ?cells - V"
    using Suc.prems(1,2) by (simp add: maze_inv_def)
  have fin: "\<And>W. finite (?cells - W)" using cells_finite by simp
  have "?cells - ?W0 = (?cells - V) - {(x, y)}" by blast
  then have "card (?cells - ?W0) = card (?cells - V) - 1"
    using xy fin by (simp add: card_Diff_singleton)
  then have init: "J (rs, ?W0, g0)"
    using Suc.prems(1,3) by (simp add: J_def)
  have step: "\<exists>s1. ?body d s = Inr s1 \<and> J s1" if d: "d \<in> set dirs" and j: "J s" for d s
  proof -
    obtain rs0 W g1 where s: "s = (rs0, W, g1)" by (cases s)
    obtain dx dy dir1 dir2 where dd: "d = (dx, dy, dir1, dir2)" by (cases d)
    have dset: "(dx, dy, dir1, dir2) \<in> set directions" using d dirs dd by simp
    have inv: "maze_inv sz rs0 W" and xyW: "(x, y) \<in> W" and cnt: "card (?cells - W) \<le> depth"
      using j unfolding J_def s by simp_all
    show ?thesis
    proof (cases "in_grid sz (x + dx, y + dy) \<and> (x + dx, y + dy) \<notin> W")
      case False
      then have "?body d s = Inr s"
        using carve_step_skip [of sz x dx y dy W "carve_path depth sz" dir1 dir2 rs0 g1]
        unfolding s dd by simp
      then show ?thesis using j by blast
    next
      case True
      obtain ra rb where o: "open_door x y dir1 rs0 = Inr ra"
          "open_door (x + dx) (y + dy) dir2 ra = Inr rb"
          and inv': "maze_inv sz rb (insert (x + dx, y + dy) W)"
        using maze_inv_leaf [OF inv xyW dset] True by blast
      have enter: "?body d s = carve_path depth sz (x + dx) (y + dy) (rb, W, g1)"
        using carve_step_enter [OF _ _ o, of sz W "carve_path depth sz" g1] True
        unfolding s dd by simp
      obtain st' where c: "carve_path depth sz (x + dx) (y + dy) (rb, W, g1) = Inr st'"
        using Suc.IH [OF inv' _ cnt] True by blast
      obtain rs1 W1 g2 where st': "st' = (rs1, W1, g2)" by (cases st')
      have r: "maze_inv sz rs1 W1" "insert (x + dx, y + dy) W \<subseteq> W1"
        using carve_path_inv [OF c [unfolded st'] inv'] by simp_all
      have "?cells - W1 \<subseteq> ?cells - W" using r(2) by blast
      then have "card (?cells - W1) \<le> card (?cells - W)"
        using fin card_mono by blast
      then have "J st'"
        unfolding J_def st' using r xyW cnt by auto
      then show ?thesis using enter c by simp
    qed
  qed
  have "\<exists>s'. for_each dirs ?body (rs, ?W0, g0) = Inr s' \<and> J s'"
    by (rule for_each_total [where J = J, OF init], rule step)
  then obtain s' where "for_each dirs ?body (rs, ?W0, g0) = Inr s'"
    by auto
  then have "carve_path (Suc depth) sz x y (rs, V, g) = Inr s'"
    using sh by simp
  then show ?case by blast
qed

subsection \<open>The fresh grid and the finished maze\<close>

lemma fresh_grid_ok: "grid_ok sz (replicate (nat sz) (replicate (nat sz) Room))"
  by (auto simp: grid_ok_def Room_def)

lemma fresh_door_closed:
  assumes "in_grid sz c"
  shows "\<not> door_open (replicate (nat sz) (replicate (nat sz) Room)) c dir"
proof -
  obtain x y where c: "c = (x, y)" by (cases c)
  have "room_at (replicate (nat sz) (replicate (nat sz) Room)) x y = Some Room"
    using room_at_grid [OF fresh_grid_ok, of sz x y] assms
    by (simp add: c in_grid_def)
  then show ?thesis by (simp add: door_open_def c Room_def)
qed

lemma fresh_links: "links sz (replicate (nat sz) (replicate (nat sz) Room)) = {}"
  using fresh_door_closed by (auto simp: links_def)

lemma not_cycle_empty: "\<not> is_cycle {} cs"
proof
  assume cyc: "is_cycle {} cs"
  have "3 \<le> length cs" using cyc by (simp add: is_cycle_def)
  then have "0 < length cs" by linarith
  moreover have "\<forall>i < length cs. (cs ! i, cs ! (Suc i mod length cs)) \<in> {}"
    using cyc unfolding is_cycle_def by blast
  ultimately show False by blast
qed

lemma no_cycle_empty: "\<nexists>cs. is_cycle {} cs"
  using not_cycle_empty by blast

lemma fresh_maze_inv:
  assumes "1 \<le> sz"
  shows "maze_inv sz (replicate (nat sz) (replicate (nat sz) Room)) (insert (0, 0) {})"
  using assms fresh_grid_ok no_cycle_empty
  by (simp add: maze_inv_def tree_on_def fresh_links in_grid_def sym_def)

lemma closed_covers:
  assumes start: "(0, 0) \<in> V" and closed: "\<And>c. c \<in> V \<Longrightarrow> neighbours sz c \<subseteq> V"
    and c: "in_grid sz (x, y)"
  shows "(x, y) \<in> V"
proof -
  have east: "(a + 1, b) \<in> V" if "(a, b) \<in> V" "in_grid sz (a + 1, b)" for a b
  proof -
    have "direction_map ''east'' = Some (1, 0)" by (simp add: direction_map_def)
    then have "(a + 1, b) \<in> neighbours sz (a, b)"
      using that(2) unfolding neighbours_def by force
    then show ?thesis using closed [OF that(1)] by blast
  qed
  have south: "(a, b + 1) \<in> V" if "(a, b) \<in> V" "in_grid sz (a, b + 1)" for a b
  proof -
    have "direction_map ''south'' = Some (0, 1)" by (simp add: direction_map_def)
    then have "(a, b + 1) \<in> neighbours sz (a, b)"
      using that(2) unfolding neighbours_def by force
    then show ?thesis using closed [OF that(1)] by blast
  qed
  have row: "int n < sz \<Longrightarrow> (int n, 0) \<in> V" for n
  proof (induction n)
    case 0
    then show ?case using start by simp
  next
    case (Suc n)
    then have "(int n, 0) \<in> V" by simp
    moreover have "in_grid sz (int n + 1, 0)" using Suc.prems by (simp add: in_grid_def)
    ultimately have "(int n + 1, 0) \<in> V" by (rule east)
    then show ?case by (simp add: add.commute)
  qed
  have col: "int m < sz \<Longrightarrow> (x, int m) \<in> V" for m
  proof (induction m)
    case 0
    have "int (nat x) < sz" using c by (simp add: in_grid_def)
    then have "(int (nat x), 0) \<in> V" by (rule row)
    then show ?case using c by (simp add: in_grid_def)
  next
    case (Suc m)
    then have "(x, int m) \<in> V" by simp
    moreover have "in_grid sz (x, int m + 1)" using Suc.prems c by (simp add: in_grid_def)
    ultimately have "(x, int m + 1) \<in> V" by (rule south)
    then show ?case by (simp add: add.commute)
  qed
  have "int (nat y) < sz" using c by (simp add: in_grid_def)
  then have "(x, int (nat y)) \<in> V" by (rule col)
  then show ?thesis using c by (simp add: in_grid_def)
qed

lemma links_door_symmetry:
  assumes g: "grid_ok sz rs" and sy: "sym (links sz rs)"
  shows "door_symmetry sz rs"
  unfolding door_symmetry_def
proof (intro allI impI)
  fix a b :: "int \<times> int" and dir dx dy
  assume h: "direction_map dir = Some (dx, dy) \<and> b = (fst a + dx, snd a + dy)
      \<and> in_grid sz a \<and> in_grid sz b"
  then have dm: "direction_map dir = Some (dx, dy)" and b: "b = (fst a + dx, snd a + dy)"
    and ga: "in_grid sz a" and gb: "in_grid sz b" by blast+
  have opp_map: "direction_map (opposite dir) = Some (- dx, - dy)"
    using directions_map(2) [OF direction_map_directions [OF dm]] .
  have a_back: "a = (fst b + - dx, snd b + - dy)" using b by simp
  have dir4: "dir \<in> {''north'', ''south'', ''east'', ''west''}"
    using dm direction_map_Some by blast
  then have opp4: "opposite dir \<in> {''north'', ''south'', ''east'', ''west''}"
    by (auto simp: opposite_def)
  let ?ra = "rs ! nat (snd a) ! nat (fst a)" and ?rb = "rs ! nat (snd b) ! nat (fst b)"
  have ra: "room_at rs (fst a) (snd a) = Some ?ra"
    using room_at_grid [OF g, of "fst a" "snd a"] ga by simp
  have rb: "room_at rs (fst b) (snd b) = Some ?rb"
    using room_at_grid [OF g, of "fst b" "snd b"] gb by simp
  have key: "doors r d \<noteq> None"
    if "r \<in> set (rs ! j)" "j < length rs" "d \<in> {''north'', ''south'', ''east'', ''west''}" for r j d
  proof -
    have "rs ! j \<in> set rs" using that(2) by simp
    then show ?thesis using g that(1,3) unfolding grid_ok_def by blast
  qed
  have "?ra \<in> set (rs ! nat (snd a))"
    using grid_ok_row(2) [OF g, of "fst a" "snd a"] ga by simp
  then obtain va where va: "doors ?ra dir = Some va"
    using key [OF _ _ dir4] grid_ok_row(1) [OF g, of "fst a" "snd a"] ga by fastforce
  have "?rb \<in> set (rs ! nat (snd b))"
    using grid_ok_row(2) [OF g, of "fst b" "snd b"] gb by simp
  then obtain vb where vb: "doors ?rb (opposite dir) = Some vb"
    using key [OF _ _ opp4] grid_ok_row(1) [OF g, of "fst b" "snd b"] gb by fastforce
  have oa: "door_open rs a dir = va" using ra va by (simp add: door_open_def)
  have ob: "door_open rs b (opposite dir) = vb" using rb vb by (simp add: door_open_def)
  have l1: "(a, b) \<in> links sz rs \<longleftrightarrow> door_open rs a dir"
  proof
    assume "(a, b) \<in> links sz rs"
    then obtain d' ex ey where d': "direction_map d' = Some (ex, ey)" "b = (fst a + ex, snd a + ey)"
        "door_open rs a d'"
      by (auto simp: links_def)
    then have "(ex, ey) = (dx, dy)" using b by simp
    then have "d' = dir" using direction_map_inj [OF d'(1)] dm by simp
    then show "door_open rs a dir" using d'(3) by simp
  next
    assume "door_open rs a dir"
    then show "(a, b) \<in> links sz rs" using linksI [OF dm ga] gb b by simp
  qed
  have l2: "(b, a) \<in> links sz rs \<longleftrightarrow> door_open rs b (opposite dir)"
  proof
    assume "(b, a) \<in> links sz rs"
    then obtain d' ex ey where d': "direction_map d' = Some (ex, ey)" "a = (fst b + ex, snd b + ey)"
        "door_open rs b d'"
      by (auto simp: links_def)
    then have "(ex, ey) = (- dx, - dy)" using b by (cases a) simp
    then have "d' = opposite dir" using direction_map_inj [OF d'(1)] opp_map by simp
    then show "door_open rs b (opposite dir)" using d'(3) by simp
  next
    assume "door_open rs b (opposite dir)"
    then show "(b, a) \<in> links sz rs" using linksI [OF opp_map gb] ga a_back by simp
  qed
  have "(a, b) \<in> links sz rs \<longleftrightarrow> (b, a) \<in> links sz rs"
    using symD [OF sy] by blast
  then have "va = vb" using l1 l2 oa ob by simp
  then show "\<exists>ra rb v. room_at rs (fst a) (snd a) = Some ra \<and> room_at rs (fst b) (snd b) = Some rb
      \<and> doors ra dir = Some v \<and> doors rb (opposite dir) = Some v"
    using ra rb va vb by simp
qed

lemma generate_maze_tree:
  assumes gen: "generate_maze limit sz (replicate (nat sz) (replicate (nat sz) Room)) g = Inr (rs', g')"
    and sz: "1 \<le> sz"
  shows "grid_ok sz rs' \<and> spanning_tree sz rs' \<and> door_symmetry sz rs'"
proof -
  let ?fresh = "replicate (nat sz) (replicate (nat sz) Room)"
  obtain V' where c: "carve_path limit sz 0 0 (?fresh, {}, g) = Inr (rs', V', g')"
    using gen by (auto simp: generate_maze_def split: sum.splits)
  from carve_path_inv [OF c fresh_maze_inv [OF sz]]
  have inv: "maze_inv sz rs' V'" and start: "(0, 0) \<in> V'"
    and closed: "\<And>c. c \<in> V' \<Longrightarrow> neighbours sz c \<subseteq> V'"
    by auto
  have g: "grid_ok sz rs'" and sub: "V' \<subseteq> {c. in_grid sz c}"
    and t: "tree_on (0, 0) (links sz rs') V'"
    using inv by (simp_all add: maze_inv_def)
  have all: "V' = {c. in_grid sz c}"
  proof
    show "V' \<subseteq> {c. in_grid sz c}" by (rule sub)
    show "{c. in_grid sz c} \<subseteq> V'"
    proof
      fix c assume "c \<in> {c. in_grid sz c}"
      then have "in_grid sz (fst c, snd c)" by simp
      then have "(fst c, snd c) \<in> V'" using closed_covers [OF start closed] by blast
      then show "c \<in> V'" by simp
    qed
  qed
  have reach: "\<forall>c. in_grid sz c \<longrightarrow> ((0, 0), c) \<in> (links sz rs')\<^sup>*"
    using t all by (simp add: tree_on_def)
  have "card (door_edges sz rs') + 1 = nat sz * nat sz"
    using t all cells_card [of sz] by (simp add: tree_on_def door_edges_def)
  then have "int (card (door_edges sz rs')) + 1 = int (nat sz * nat sz)" by linarith
  then have cnt: "int (card (door_edges sz rs')) = sz * sz - 1" using sz by simp
  have free: "\<nexists>cs. is_cycle (links sz rs') cs" using t by (simp add: tree_on_def)
  have "sym (links sz rs')" using t by (simp add: tree_on_def)
  then have "door_symmetry sz rs'" using links_door_symmetry [OF g] by blast
  then show ?thesis using g reach cnt free by (simp add: spanning_tree_def)
qed

lemma generate_maze_total:
  assumes sz: "1 \<le> sz" and limit: "nat (sz * sz) \<le> limit"
  shows "\<exists>rs' g'. generate_maze limit sz (replicate (nat sz) (replicate (nat sz) Room)) g = Inr (rs', g')"
proof -
  let ?fresh = "replicate (nat sz) (replicate (nat sz) Room)"
  have "nat sz * nat sz = nat (sz * sz)" using sz by (simp add: nat_mult_distrib)
  then have "card ({c. in_grid sz c} - {}) \<le> limit"
    using limit cells_card [of sz] by simp
  then obtain st' where "carve_path limit sz 0 0 (?fresh, {}, g) = Inr st'"
    using carve_path_total [OF fresh_maze_inv [OF sz], of limit g] by auto
  then show ?thesis
    by (cases st') (auto simp: generate_maze_def)
qed

subsection \<open>What depends on the doors only\<close>

lemma py_index_less: "py_index xs i = Some j \<Longrightarrow> j < length xs"
  by (auto simp: py_index_def Let_def split: if_splits)

lemma py_index_length: "length xs = length ys \<Longrightarrow> py_index xs i = py_index ys i"
  by (simp add: py_index_def)

lemma room_at_doors:
  assumes "door_grid rs = door_grid rs'"
  shows "map_option doors (room_at rs x y) = map_option doors (room_at rs' x y)"
proof -
  have len: "length rs = length rs'"
    using assms unfolding door_grid_def by (rule map_eq_imp_length_eq)
  have iy: "py_index rs y = py_index rs' y" using len by (rule py_index_length)
  show ?thesis
  proof (cases "py_index rs y")
    case None
    then show ?thesis using iy by (simp add: room_at_def)
  next
    case (Some j)
    have j: "j < length rs" using py_index_less [OF Some] .
    have row: "map doors (rs ! j) = map doors (rs' ! j)"
      using assms j len unfolding door_grid_def by (metis nth_map)
    then have "length (rs ! j) = length (rs' ! j)" by (rule map_eq_imp_length_eq)
    then have ix: "py_index (rs ! j) x = py_index (rs' ! j) x" by (rule py_index_length)
    show ?thesis
    proof (cases "py_index (rs ! j) x")
      case None
      then show ?thesis using Some iy ix by (simp add: room_at_def)
    next
      case (Some i)
      have i: "i < length (rs ! j)" using py_index_less [OF Some] .
      have "doors (rs ! j ! i) = doors (rs' ! j ! i)"
        using row i by (metis nth_map length_map)
      then show ?thesis using \<open>py_index rs y = Some j\<close> Some iy ix by (simp add: room_at_def)
    qed
  qed
qed

lemma door_open_doors:
  assumes "door_grid rs = door_grid rs'"
  shows "door_open rs c dir = door_open rs' c dir"
  using room_at_doors [OF assms, of "fst c" "snd c"]
  by (auto simp: door_open_def split: option.splits)

lemma links_doors:
  assumes "door_grid rs = door_grid rs'"
  shows "links sz rs = links sz rs'"
  unfolding links_def using door_open_doors [OF assms] by simp

lemma door_symmetry_doors:
  assumes eq: "door_grid rs = door_grid rs'" and s: "door_symmetry sz rs"
  shows "door_symmetry sz rs'"
  unfolding door_symmetry_def
proof (intro allI impI)
  fix a b :: "int \<times> int" and dir dx dy
  assume h: "direction_map dir = Some (dx, dy) \<and> b = (fst a + dx, snd a + dy)
      \<and> in_grid sz a \<and> in_grid sz b"
  obtain ra rb v where r: "room_at rs (fst a) (snd a) = Some ra" "room_at rs (fst b) (snd b) = Some rb"
      "doors ra dir = Some v" "doors rb (opposite dir) = Some v"
    using s h unfolding door_symmetry_def by blast
  obtain ra' where ra': "room_at rs' (fst a) (snd a) = Some ra'" "doors ra' = doors ra"
    using room_at_doors [OF eq, of "fst a" "snd a"] r(1) by (cases "room_at rs' (fst a) (snd a)") auto
  obtain rb' where rb': "room_at rs' (fst b) (snd b) = Some rb'" "doors rb' = doors rb"
    using room_at_doors [OF eq, of "fst b" "snd b"] r(2) by (cases "room_at rs' (fst b) (snd b)") auto
  show "\<exists>ra rb v. room_at rs' (fst a) (snd a) = Some ra \<and> room_at rs' (fst b) (snd b) = Some rb
      \<and> doors ra dir = Some v \<and> doors rb (opposite dir) = Some v"
    using ra' rb' r(3,4) by simp
qed

lemma update_room_zero:
  assumes eq: "door_grid rs = door_grid rs'" and g: "grid_ok sz rs'" and sz: "1 \<le> sz"
  shows "\<exists>rs2. update_room f 0 0 rs = Some rs2"
proof -
  have len: "length rs = length rs'"
    using eq unfolding door_grid_def by (rule map_eq_imp_length_eq)
  have c: "in_grid sz (0, 0)" using sz by (simp add: in_grid_def)
  have l': "0 < length rs'" using grid_ok_row(1) [OF g c] by simp
  then have l: "0 < length rs" using len by simp
  have "map doors (rs ! 0) = map doors (rs' ! 0)"
    using eq l len unfolding door_grid_def by (metis nth_map)
  then have "length (rs ! 0) = length (rs' ! 0)" by (rule map_eq_imp_length_eq)
  then have "0 < length (rs ! 0)" using grid_ok_row(2) [OF g c] by simp
  then show ?thesis using l by (simp add: update_room_def py_index_def)
qed

subsection \<open>Nothing after the carving touches a door\<close>

lemma populate_rooms_doors:
  "door_grid (fst (populate_rooms db spawn lvl sz rs g)) = door_grid rs"
proof (cases "get_all_enemies_by_tier db lvl = []")
  case True
  then show ?thesis by (simp add: populate_rooms_def)
next
  case False
  let ?P = "\<lambda>st :: room list list \<times> rng. door_grid (fst st) = door_grid rs"
  show ?thesis
    unfolding populate_rooms_def using False
    apply simp
    apply (rule for_each_try_invariant [where P = ?P])
     apply simp
    apply (auto split: if_splits prod.splits option.splits dest!: update_room_doors)
    done
qed

lemma place_treasures_doors:
  "door_grid (fst (place_treasures k cells rs g)) = door_grid rs"
proof (induction k cells rs g rule: place_treasures.induct)
  case (1 empty_rooms rs g)
  then show ?case by simp
next
  case (2 k empty_rooms rs g)
  show ?case
  proof (cases "empty_rooms = []")
    case True
    then show ?thesis by simp
  next
    case False
    obtain i g1 where r: "randbelow (length empty_rooms) g = (i, g1)"
      by (cases "randbelow (length empty_rooms) g")
    obtain x y where c: "empty_rooms ! i = (x, y)" by (cases "empty_rooms ! i")
    show ?thesis
    proof (cases "update_room (\<lambda>r. r\<lparr>has_treasure := True\<rparr>) x y rs")
      case None
      then show ?thesis using False r c by simp
    next
      case (Some rs')
      have "door_grid rs' = door_grid rs" using update_room_doors [OF Some] by simp
      moreover have "door_grid (fst (place_treasures k (take i empty_rooms @ drop (Suc i) empty_rooms) rs' g1))
          = door_grid rs'"
        using "2.IH" [OF False r [symmetric] c [symmetric] Some] .
      ultimately show ?thesis using False r c Some by simp
    qed
  qed
qed

lemma place_treasure_rooms_doors:
  "door_grid (fst (place_treasure_rooms lvl sz rs g)) = door_grid rs"
  by (simp add: place_treasure_rooms_def place_treasures_doors split: prod.splits option.splits)

lemma place_merchant_doors:
  "door_grid (fst (place_merchant sz rs g)) = door_grid rs"
  by (auto simp: place_merchant_def split: prod.splits option.splits dest!: update_room_doors)

lemma place_end_room_doors:
  "door_grid (place_end_room sz pos rs) = door_grid rs"
  by (auto simp: place_end_room_def split: prod.splits option.splits dest!: update_room_doors)

lemma update_visibility_doors:
  "door_grid (rooms (update_visibility d)) = door_grid (rooms d)"
proof -
  obtain x y where p: "player_pos d = (x, y)" by (cases "player_pos d")
  let ?P = "\<lambda>rs. door_grid rs = door_grid (rooms d)"
  show ?thesis
    unfolding update_visibility_def p
    apply simp
    apply (rule for_each_try_invariant [where P = ?P])
     apply simp
    apply (auto simp: Let_def split: if_splits prod.splits option.splits dest!: update_room_doors)
    done
qed

lemma with_current_room_doors:
  assumes "\<And>r. doors (f r) = doors r"
  shows "door_grid (rooms (with_current_room f d)) = door_grid (rooms d)
         \<and> d_size (with_current_room f d) = d_size d"
  using assms
  by (auto simp: with_current_room_def split: option.splits dest!: update_room_doors)

lemma move_player_doors:
  "door_grid (rooms (snd (move_player d direction))) = door_grid (rooms d)"
  by (simp add: move_player_def Let_def update_visibility_doors split: option.splits prod.splits)

subsection \<open>The generated dungeon\<close>

lemma grid_ok_doors:
  assumes eq: "door_grid rs = door_grid rs'" and g: "grid_ok sz rs"
  shows "grid_ok sz rs'"
proof -
  let ?four = "{''north'', ''south'', ''east'', ''west''}"
  have len: "length rs' = length rs"
    using eq [symmetric] unfolding door_grid_def by (rule map_eq_imp_length_eq)
  have rows: "map doors (rs' ! j) = map doors (rs ! j)" if "j < length rs" for j
  proof -
    have "map (map doors) rs' ! j = map (map doors) rs ! j"
      using eq unfolding door_grid_def by simp
    then show ?thesis using that len by simp
  qed
  have old: "length row = nat sz \<and> (\<forall>r \<in> set row. \<forall>dir \<in> ?four. doors r dir \<noteq> None)"
    if "row \<in> set rs" for row
    using g that unfolding grid_ok_def by blast
  have new: "length row' = nat sz \<and> (\<forall>r \<in> set row'. \<forall>dir \<in> ?four. doors r dir \<noteq> None)"
    if row': "row' \<in> set rs'" for row'
  proof -
    obtain j where j: "j < length rs'" "row' = rs' ! j"
      using row' by (auto simp: in_set_conv_nth)
    have jr: "j < length rs" using j(1) len by simp
    have m: "map doors row' = map doors (rs ! j)" using rows [OF jr] j(2) by simp
    have l: "length row' = length (rs ! j)" using m by (rule map_eq_imp_length_eq)
    have row: "rs ! j \<in> set rs" using jr by simp
    have keys: "\<forall>r \<in> set (rs ! j). \<forall>dir \<in> ?four. doors r dir \<noteq> None"
      using old [OF row] by blast
    have "doors r dir \<noteq> None" if r: "r \<in> set row'" and dir: "dir \<in> ?four" for r dir
    proof -
      obtain i where i: "i < length row'" "r = row' ! i"
        using r by (auto simp: in_set_conv_nth)
      have il: "i < length (rs ! j)" using i(1) l by simp
      have "map doors row' ! i = map doors (rs ! j) ! i" using m by simp
      then have same: "doors r = doors (rs ! j ! i)" using i il by simp
      have mem: "rs ! j ! i \<in> set (rs ! j)" using il by simp
      have "doors (rs ! j ! i) dir \<noteq> None" using keys mem dir by blast
      then show ?thesis using same by simp
    qed
    moreover have "length row' = nat sz" using old [OF row] l by simp
    ultimately show ?thesis by blast
  qed
  have "length rs' = nat sz" using len g unfolding grid_ok_def by simp
  then show ?thesis unfolding grid_ok_def using new by blast
qed


lemma generate_dungeon_doors:
  assumes "generate_dungeon db spawn limit d0 g = Inr (d, g')"
  shows "\<exists>rs1 g1. generate_maze limit (d_size d0) (rooms d0) g = Inr (rs1, g1)
           \<and> door_grid (rooms d) = door_grid rs1 \<and> d_size d = d_size d0"
proof -
  obtain rs1 g1 where m: "generate_maze limit (d_size d0) (rooms d0) g = Inr (rs1, g1)"
    using assms by (auto simp: generate_dungeon_def split: sum.splits)
  obtain rs2 g2 where p: "populate_rooms db spawn (d_tier d0) (d_size d0) rs1 g1 = (rs2, g2)"
    by (cases "populate_rooms db spawn (d_tier d0) (d_size d0) rs1 g1")
  obtain rs3 g3 where t: "place_treasure_rooms (d_tier d0) (d_size d0) rs2 g2 = (rs3, g3)"
    by (cases "place_treasure_rooms (d_tier d0) (d_size d0) rs2 g2")
  obtain rs4 g4 where me: "place_merchant (d_size d0) rs3 g3 = (rs4, g4)"
    by (cases "place_merchant (d_size d0) rs3 g3")
  let ?rs5 = "place_end_room (d_size d0) (player_pos d0) rs4"
  obtain rs6 where v: "update_room (\<lambda>r. r\<lparr>is_visible := True\<rparr>) 0 0 ?rs5 = Some rs6"
    and d: "d = update_visibility (d0\<lparr>rooms := rs6\<rparr>)"
    using assms m p t me by (auto simp: generate_dungeon_def Let_def split: option.splits)
  have "door_grid rs2 = door_grid rs1" using populate_rooms_doors [of db spawn "d_tier d0" "d_size d0" rs1 g1] p by simp
  moreover have "door_grid rs3 = door_grid rs2" using place_treasure_rooms_doors [of "d_tier d0" "d_size d0" rs2 g2] t by simp
  moreover have "door_grid rs4 = door_grid rs3" using place_merchant_doors [of "d_size d0" rs3 g3] me by simp
  moreover have "door_grid ?rs5 = door_grid rs4" by (rule place_end_room_doors)
  moreover have "door_grid rs6 = door_grid ?rs5" using update_room_doors [OF v] by simp
  moreover have "door_grid (rooms d) = door_grid rs6"
    unfolding d using update_visibility_doors [of "d0\<lparr>rooms := rs6\<rparr>"] by simp
  moreover have "d_size d = d_size d0" unfolding d by (simp add: update_visibility_fields)
  ultimately show ?thesis using m by simp
qed

lemma generate_dungeon_total:
  assumes m: "generate_maze limit (d_size d0) (rooms d0) g = Inr (rs1, g1)"
    and g: "grid_ok (d_size d0) rs1" and sz: "1 \<le> d_size d0"
  shows "\<exists>d g'. generate_dungeon db spawn limit d0 g = Inr (d, g')"
proof -
  obtain rs2 g2 where p: "populate_rooms db spawn (d_tier d0) (d_size d0) rs1 g1 = (rs2, g2)"
    by (cases "populate_rooms db spawn (d_tier d0) (d_size d0) rs1 g1")
  obtain rs3 g3 where t: "place_treasure_rooms (d_tier d0) (d_size d0) rs2 g2 = (rs3, g3)"
    by (cases "place_treasure_rooms (d_tier d0) (d_size d0) rs2 g2")
  obtain rs4 g4 where me: "place_merchant (d_size d0) rs3 g3 = (rs4, g4)"
    by (cases "place_merchant (d_size d0) rs3 g3")
  let ?rs5 = "place_end_room (d_size d0) (player_pos d0) rs4"
  have "door_grid rs2 = door_grid rs1" using populate_rooms_doors [of db spawn "d_tier d0" "d_size d0" rs1 g1] p by simp
  moreover have "door_grid rs3 = door_grid rs2" using place_treasure_rooms_doors [of "d_tier d0" "d_size d0" rs2 g2] t by simp
  moreover have "door_grid rs4 = door_grid rs3" using place_merchant_doors [of "d_size d0" rs3 g3] me by simp
  moreover have "door_grid ?rs5 = door_grid rs4" by (rule place_end_room_doors)
  ultimately have "door_grid ?rs5 = door_grid rs1" by simp
  then obtain rs6 where "update_room (\<lambda>r. r\<lparr>is_visible := True\<rparr>) 0 0 ?rs5 = Some rs6"
    using update_room_zero [OF _ g sz] by blast
  then show ?thesis using m p t me by (simp add: generate_dungeon_def Let_def)
qed

lemma Dungeon_init_maze:
  assumes "Dungeon_init db spawn limit lvl sz g = Inr (d, g')"
  shows "1 \<le> lvl \<and> 5 \<le> sz \<and> d_size d = sz \<and> grid_ok sz (rooms d)
         \<and> spanning_tree sz (rooms d) \<and> door_symmetry sz (rooms d)"
proof -
  let ?d0 = "\<lparr>d_tier = lvl, d_size = sz, player_pos = (0, 0),
               rooms = replicate (nat sz) (replicate (nat sz) Room)\<rparr>"
  have lvl: "1 \<le> lvl" and sz: "5 \<le> sz"
    and gen: "generate_dungeon db spawn limit ?d0 g = Inr (d, g')"
    using assms by (auto simp: Dungeon_init_def split: if_splits)
  obtain rs1 g1 where m: "generate_maze limit sz (replicate (nat sz) (replicate (nat sz) Room)) g = Inr (rs1, g1)"
    and eq: "door_grid (rooms d) = door_grid rs1" and size: "d_size d = sz"
    using generate_dungeon_doors [OF gen] by auto
  have sz1: "1 \<le> sz" using sz by simp
  note tree = generate_maze_tree [OF m sz1]
  have links: "links sz (rooms d) = links sz rs1" using links_doors [OF eq] .
  have "spanning_tree sz (rooms d)"
    using tree unfolding spanning_tree_def door_edges_def links by simp
  moreover have "door_symmetry sz (rooms d)"
    using door_symmetry_doors [OF eq [symmetric]] tree by simp
  moreover have "grid_ok sz (rooms d)"
    using grid_ok_doors [OF eq [symmetric]] tree by simp
  ultimately show ?thesis using lvl sz size by simp
qed

lemma Dungeon_init_total:
  assumes "1 \<le> lvl" and "5 \<le> sz" and "nat (sz * sz) \<le> limit"
  shows "\<exists>d g'. Dungeon_init db spawn limit lvl sz g = Inr (d, g')"
proof -
  let ?d0 = "\<lparr>d_tier = lvl, d_size = sz, player_pos = (0, 0),
               rooms = replicate (nat sz) (replicate (nat sz) Room)\<rparr>"
  have sz1: "1 \<le> sz" using assms(2) by simp
  obtain rs1 g1 where m: "generate_maze limit sz (replicate (nat sz) (replicate (nat sz) Room)) g = Inr (rs1, g1)"
    using generate_maze_total [OF sz1 assms(3)] by blast
  have g: "grid_ok sz rs1" using generate_maze_tree [OF m sz1] by simp
  have "\<exists>d g'. generate_dungeon db spawn limit ?d0 g = Inr (d, g')"
    using generate_dungeon_total [of limit ?d0 g rs1 g1] m g sz1 by simp
  then show ?thesis using assms(1,2) by (simp add: Dungeon_init_def)
qed

lemma dungeon_state_symmetry:
  "dungeon_state db spawn d \<Longrightarrow> door_symmetry (d_size d) (rooms d)"
proof (induction rule: dungeon_state.induct)
  case (generated limit lvl sz g d g')
  then show ?case using Dungeon_init_maze by blast
next
  case (moved d direction)
  show ?case
    using door_symmetry_doors [where rs = "rooms d"
          and rs' = "rooms (snd (move_player d direction))" and sz = "d_size d"]
      move_player_doors [of d direction] moved.IH
    by (simp add: move_player_size)
next
  case (fought d damage)
  have "door_grid (rooms (enemy_hit damage d)) = door_grid (rooms d)
      \<and> d_size (enemy_hit damage d) = d_size d"
    unfolding enemy_hit_def by (rule with_current_room_doors) (simp split: list.splits)
  then show ?case using door_symmetry_doors [of "rooms d" "rooms (enemy_hit damage d)"] fought.IH
    by simp
next
  case (won d)
  have "door_grid (rooms (combat_victory d)) = door_grid (rooms d)
      \<and> d_size (combat_victory d) = d_size d"
    unfolding combat_victory_def by (rule with_current_room_doors) simp
  then show ?case using door_symmetry_doors [of "rooms d" "rooms (combat_victory d)"] won.IH
    by simp
next
  case (looted d)
  have "door_grid (rooms (treasure_taken d)) = door_grid (rooms d)
      \<and> d_size (treasure_taken d) = d_size d"
    unfolding treasure_taken_def by (rule with_current_room_doors) simp
  then show ?case using door_symmetry_doors [of "rooms d" "rooms (treasure_taken d)"] looted.IH
    by simp
next
  case (traded d)
  have "door_grid (rooms (merchant_left d)) = door_grid (rooms d)
      \<and> d_size (merchant_left d) = d_size d"
    unfolding merchant_left_def by (rule with_current_room_doors) simp
  then show ?case using door_symmetry_doors [of "rooms d" "rooms (merchant_left d)"] traded.IH
    by simp
qed

text \<open>
  Claim C1. Every dungeon that \<^verbatim>\<open>Dungeon(tier, size)\<close> generates has tier at least 1 and size
  at least 5; every room of its size-by-size grid is reached from (0,0) through open doors;
  it has exactly size * size - 1 door-edges; and its door graph has no cycle. The
  constructor does return a dungeon whenever the interpreter allows size * size nested
  calls of \<^verbatim>\<open>carve_path\<close>.
\<close>

theorem generated_maze_spanning_tree:
  "(\<forall>d g'. Dungeon_init db spawn limit lvl sz g = Inr (d, g') \<longrightarrow>
       1 \<le> lvl \<and> 5 \<le> sz \<and> d_size d = sz
     \<and> (\<forall>c. in_grid sz c \<longrightarrow> ((0, 0), c) \<in> (links sz (rooms d))\<^sup>*)
     \<and> int (card (door_edges sz (rooms d))) = sz * sz - 1
     \<and> (\<nexists>cs. is_cycle (links sz (rooms d)) cs))
   \<and> (1 \<le> lvl \<and> 5 \<le> sz \<and> nat (sz * sz) \<le> limit \<longrightarrow>
        (\<exists>d g'. Dungeon_init db spawn limit lvl sz g = Inr (d, g')))"
proof -
  have "1 \<le> lvl \<and> 5 \<le> sz \<and> d_size d = sz
     \<and> (\<forall>c. in_grid sz c \<longrightarrow> ((0, 0), c) \<in> (links sz (rooms d))\<^sup>*)
     \<and> int (card (door_edges sz (rooms d))) = sz * sz - 1
     \<and> (\<nexists>cs. is_cycle (links sz (rooms d)) cs)"
    if "Dungeon_init db spawn limit lvl sz g = Inr (d, g')" for d g'
    using Dungeon_init_maze [OF that] unfolding spanning_tree_def by blast
  then show ?thesis using Dungeon_init_total [of lvl sz limit db spawn g] by blast
qed

theorem generated_maze_spanning_tree_witness:
  "\<exists>d g'. Dungeon_init demo_db demo_spawn 25 1 5 (sconst 0) = Inr (d, g')
      \<and> d_size d = 5
      \<and> (\<forall>c. in_grid 5 c \<longrightarrow> ((0, 0), c) \<in> (links 5 (rooms d))\<^sup>*)
      \<and> int (card (door_edges 5 (rooms d))) = 24
      \<and> (\<nexists>cs. is_cycle (links 5 (rooms d)) cs)"
  using generated_maze_spanning_tree [of demo_db demo_spawn 25 1 5 "sconst 0"]
  by fastforce

text \<open>
  Claim C2. In every dungeon state of a game, two rooms adjacent in a direction D hold the
  same value for the door D of the first and the door opposite to D of the second. The
  carving establishes it, and movement, combat and looting leave every door as it is.
\<close>

theorem door_symmetry_invariant:
  "(dungeon_state db spawn d \<longrightarrow> door_symmetry (d_size d) (rooms d))
   \<and> (\<forall>rs g'. 1 \<le> sz
         \<and> generate_maze limit sz (replicate (nat sz) (replicate (nat sz) Room)) g = Inr (rs, g') \<longrightarrow>
        door_symmetry sz rs)
   \<and> door_grid (rooms (snd (move_player d0 direction))) = door_grid (rooms d0)
   \<and> door_grid (rooms (enemy_hit damage d0)) = door_grid (rooms d0)
   \<and> door_grid (rooms (combat_victory d0)) = door_grid (rooms d0)
   \<and> door_grid (rooms (treasure_taken d0)) = door_grid (rooms d0)
   \<and> door_grid (rooms (merchant_left d0)) = door_grid (rooms d0)"
proof -
  have "door_grid (rooms (enemy_hit damage d0)) = door_grid (rooms d0)"
    unfolding enemy_hit_def
    using with_current_room_doors [of "\<lambda>r. case enemies r of [] \<Rightarrow> r
        | e # es \<Rightarrow> r\<lparr>enemies := snd (enemy_take_damage e damage) # es\<rparr>" d0]
    by (simp split: list.splits)
  moreover have "door_grid (rooms (combat_victory d0)) = door_grid (rooms d0)"
    unfolding combat_victory_def by (simp add: with_current_room_doors)
  moreover have "door_grid (rooms (treasure_taken d0)) = door_grid (rooms d0)"
    unfolding treasure_taken_def by (simp add: with_current_room_doors)
  moreover have "door_grid (rooms (merchant_left d0)) = door_grid (rooms d0)"
    unfolding merchant_left_def by (simp add: with_current_room_doors)
  moreover have "\<forall>rs g'. 1 \<le> sz
         \<and> generate_maze limit sz (replicate (nat sz) (replicate (nat sz) Room)) g = Inr (rs, g') \<longrightarrow>
        door_symmetry sz rs"
    using generate_maze_tree by blast
  ultimately show ?thesis
    using dungeon_state_symmetry [of db spawn d] move_player_doors [of d0 direction] by blast
qed

theorem door_symmetry_invariant_witness:
  "\<exists>d g'. Dungeon_init demo_db demo_spawn 25 1 5 (sconst 0) = Inr (d, g')
      \<and> dungeon_state demo_db demo_spawn (treasure_taken (snd (move_player (combat_victory d) ''south'')))
      \<and> door_symmetry 5 (rooms (treasure_taken (snd (move_player (combat_victory d) ''south''))))"
proof -
  obtain d g' where gen: "Dungeon_init demo_db demo_spawn 25 1 5 (sconst 0) = Inr (d, g')"
    using Dungeon_init_total [of 1 5 25 demo_db demo_spawn "sconst 0"] by auto
  let ?d = "treasure_taken (snd (move_player (combat_victory d) ''south''))"
  have st: "dungeon_state demo_db demo_spawn ?d"
    by (intro dungeon_state.looted dungeon_state.moved dungeon_state.won
        dungeon_state.generated [OF gen])
  have "d_size d = 5" using Dungeon_init_maze [OF gen] by simp
  then have "d_size ?d = 5"
    by (simp add: treasure_taken_def combat_victory_def with_current_room_doors move_player_size)
  then have "door_symmetry 5 (rooms ?d)"
    using door_symmetry_invariant [of demo_db demo_spawn ?d] st by simp
  then show ?thesis using gen st by blast
qed

end
